theory Spec2Isabelle
  imports Complex_Main
begin

unbundle bit_operations_syntax

section \<open>JavaScript numbers\<close>

text \<open>
  The fields of \<open>Dynamic\<close> are JavaScript numbers, IEEE 754 binary64 values: NaN,
  the two infinities, the two zeros (\<open>Fin 0\<close> is \<open>+0\<close>) and the finite doubles
  \<open>Fin x\<close>, where \<open>x\<close> is \<open>m * 2^e\<close> with \<open>|m| < 2^53\<close> and \<open>-1074 \<le> e \<le> 971\<close>.
  The result of an arithmetic operation is the exact result rounded to the nearest
  double, ties to the even significand (\<open>fl\<close>): it overflows to an infinity from
  \<open>2^1024\<close> on and underflows to a zero that keeps the sign.
\<close>

datatype jsnum = NaN | NegInf | NegZero | Fin real | PosInf

text \<open>Rounding to the nearest integer, ties to even.\<close>

definition round_even :: "real \<Rightarrow> int" where
  "round_even q =
     (let f = \<lfloor>q\<rfloor>; r = q - of_int f
      in if r < 1 / 2 then f else if 1 / 2 < r then f + 1
         else if even f then f else f + 1)"

text \<open>
  The exponent of the binade of \<open>x\<close>, not below that of the subnormal numbers; the
  unit in the last place is \<open>2^(expo x - 52)\<close>.
\<close>

definition expo :: "real \<Rightarrow> int" where
  "expo x = max \<lfloor>log 2 \<bar>x\<bar>\<rfloor> (- 1022)"

definition huge :: real where
  "huge = 2 powi 1024"

definition fl :: "real \<Rightarrow> jsnum" where
  "fl x =
     (if x = 0 then Fin 0
      else let u = 2 powi (expo x - 52); y = of_int (round_even (x / u)) * u
           in if huge \<le> \<bar>y\<bar> then (if 0 < x then PosInf else NegInf)
              else if y = 0 then (if 0 < x then Fin 0 else NegZero)
              else Fin y)"

definition double :: "real \<Rightarrow> bool" where
  "double x = (\<exists>m e. x = of_int m * 2 powi e \<and> \<bar>m\<bar> < 2 ^ 53 \<and> - 1074 \<le> e \<and> e \<le> 971)"

text \<open>The value before the range check, a multiple of the unit in the last place.\<close>

definition rounded :: "real \<Rightarrow> real" where
  "rounded x = of_int (round_even (x / 2 powi (expo x - 52))) * 2 powi (expo x - 52)"

text \<open>Classification of a number, its sign bit and its value as a real.\<close>

fun is_inf :: "jsnum \<Rightarrow> bool" where
  "is_inf NegInf = True"
| "is_inf PosInf = True"
| "is_inf a = False"

fun is_zero :: "jsnum \<Rightarrow> bool" where
  "is_zero NegZero = True"
| "is_zero (Fin x) = (x = 0)"
| "is_zero a = False"

fun negative :: "jsnum \<Rightarrow> bool" where
  "negative NegInf = True"
| "negative NegZero = True"
| "negative (Fin x) = (x < 0)"
| "negative a = False"

fun rv :: "jsnum \<Rightarrow> real" where
  "rv (Fin x) = x"
| "rv a = 0"

fun level :: "jsnum \<Rightarrow> int" where
  "level NegInf = - 1"
| "level PosInf = 1"
| "level a = 0"

definition zero_of :: "bool \<Rightarrow> jsnum" where
  "zero_of neg = (if neg then NegZero else Fin 0)"

definition inf_of :: "bool \<Rightarrow> jsnum" where
  "inf_of neg = (if neg then NegInf else PosInf)"

text \<open>Every number a computation can hold: a finite one is a double.\<close>

fun is_double :: "jsnum \<Rightarrow> bool" where
  "is_double (Fin x) = double x"
| "is_double a = True"

fun jneg :: "jsnum \<Rightarrow> jsnum" where
  "jneg NaN = NaN"
| "jneg NegInf = PosInf"
| "jneg NegZero = Fin 0"
| "jneg (Fin a) = (if a = 0 then NegZero else Fin (- a))"
| "jneg PosInf = NegInf"

definition jadd :: "jsnum \<Rightarrow> jsnum \<Rightarrow> jsnum" where
  "jadd a b =
     (if a = NaN \<or> b = NaN then NaN
      else if is_inf a then (if is_inf b \<and> a \<noteq> b then NaN else a)
      else if is_inf b then b
      else if a = NegZero \<and> b = NegZero then NegZero
      else fl (rv a + rv b))"

definition jsub :: "jsnum \<Rightarrow> jsnum \<Rightarrow> jsnum" where
  "jsub a b = jadd a (jneg b)"

definition jmul :: "jsnum \<Rightarrow> jsnum \<Rightarrow> jsnum" where
  "jmul a b =
     (if a = NaN \<or> b = NaN then NaN
      else if is_inf a \<or> is_inf b
      then (if is_zero a \<or> is_zero b then NaN else inf_of (negative a \<noteq> negative b))
      else if is_zero a \<or> is_zero b then zero_of (negative a \<noteq> negative b)
      else fl (rv a * rv b))"

definition jdiv :: "jsnum \<Rightarrow> jsnum \<Rightarrow> jsnum" where
  "jdiv a b =
     (if a = NaN \<or> b = NaN then NaN
      else if is_inf a then (if is_inf b then NaN else inf_of (negative a \<noteq> negative b))
      else if is_inf b then zero_of (negative a \<noteq> negative b)
      else if is_zero b then (if is_zero a then NaN else inf_of (negative a \<noteq> negative b))
      else if is_zero a then zero_of (negative a \<noteq> negative b)
      else fl (rv a / rv b))"

text \<open>\<open>Math.abs\<close>.\<close>

fun jabs :: "jsnum \<Rightarrow> jsnum" where
  "jabs NaN = NaN"
| "jabs NegInf = PosInf"
| "jabs NegZero = Fin 0"
| "jabs (Fin a) = Fin \<bar>a\<bar>"
| "jabs PosInf = PosInf"

text \<open>
  The comparison \<open>a < b\<close>: false as soon as one side is NaN; the two zeros are equal.
\<close>

definition jlt :: "jsnum \<Rightarrow> jsnum \<Rightarrow> bool" where
  "jlt a b = (a \<noteq> NaN \<and> b \<noteq> NaN
      \<and> (level a < level b \<or> level a = level b \<and> rv a < rv b))"

definition jgt :: "jsnum \<Rightarrow> jsnum \<Rightarrow> bool" where
  "jgt a b = jlt b a"

text \<open>\<open>a <= b\<close>, used to state bounds; the code itself never evaluates it.\<close>

definition jle :: "jsnum \<Rightarrow> jsnum \<Rightarrow> bool" where
  "jle a b = (a \<noteq> NaN \<and> b \<noteq> NaN \<and> \<not> jlt b a)"

text \<open>
  \<open>Math.min\<close> and \<open>Math.max\<close>: NaN as soon as one argument is NaN; of the two
  zeros, \<open>-0\<close> is the smaller.
\<close>

definition jmin :: "jsnum \<Rightarrow> jsnum \<Rightarrow> jsnum" where
  "jmin a b =
     (if a = NaN \<or> b = NaN then NaN
      else if jlt b a then b else if jlt a b then a
      else if a = NegZero \<or> b = NegZero then NegZero else a)"

definition jmax :: "jsnum \<Rightarrow> jsnum \<Rightarrow> jsnum" where
  "jmax a b =
     (if a = NaN \<or> b = NaN then NaN
      else if jlt a b then b else if jlt b a then a
      else if a = Fin 0 \<or> b = Fin 0 then Fin 0 else a)"

text \<open>\<open>a !== b\<close>: NaN differs from everything, itself included; \<open>-0\<close> equals \<open>0\<close>.\<close>

definition jsne :: "jsnum \<Rightarrow> jsnum \<Rightarrow> bool" where
  "jsne a b = (a = NaN \<or> b = NaN \<or> jlt a b \<or> jlt b a)"

text \<open>A number used as a condition: the zeros and NaN are falsy.\<close>

definition truthy :: "jsnum \<Rightarrow> bool" where
  "truthy a = (a \<noteq> NaN \<and> \<not> is_zero a)"

text \<open>
  Modelled from the spec: \<open>bound\<close> is imported from the \<open>utils\<close> index, which is not
  among the sources. The spec says that it clamps its first argument to \<open>[min,max]\<close>;
  it is taken as \<open>Math.max(min, Math.min(max, x))\<close>.
\<close>

definition bound :: "jsnum \<Rightarrow> jsnum \<Rightarrow> jsnum \<Rightarrow> jsnum" where
  "bound x lo hi = jmax lo (jmin hi x)"

section \<open>Dynamic\<close>

datatype mode = STOP | INFINITE | POSITION

text \<open>
  The callback \<open>fn\<close> is opaque to the class: the model keeps whether one is installed,
  and every operation that may call it returns the list of the arguments it was called
  with, in order. A callback is taken not to call back into the controller.
  The fields \<open>min\<close> and \<open>max\<close> are \<open>min_bound\<close> and \<open>max_bound\<close> here.
\<close>

record Dynamic =
  fn :: bool
  mode :: mode
  speed :: jsnum
  speedMult :: jsnum
  currentSpeed :: jsnum
  target :: jsnum
  current :: jsnum
  min_bound :: jsnum
  max_bound :: jsnum

text \<open>An optional parameter is \<open>None\<close> when the caller leaves it out.\<close>

definition default_arg :: "'a \<Rightarrow> 'a option \<Rightarrow> 'a" where
  "default_arg dflt arg = (case arg of None \<Rightarrow> dflt | Some v \<Rightarrow> v)"

definition Dynamic_constructor :: "bool \<Rightarrow> jsnum option \<Rightarrow> jsnum option \<Rightarrow> Dynamic" where
  "Dynamic_constructor f mn mx =
     \<lparr>fn = f, mode = STOP, speed = Fin 0, speedMult = Fin 1, currentSpeed = Fin 0,
      target = Fin 0, current = Fin 0,
      min_bound = default_arg NegInf mn, max_bound = default_arg PosInf mx\<rparr>"

definition goto :: "jsnum \<Rightarrow> jsnum option \<Rightarrow> Dynamic \<Rightarrow> Dynamic" where
  "goto position sm d =
     d\<lparr>mode := POSITION,
       target := bound position (min_bound d) (max_bound d),
       speedMult := default_arg (Fin 1) sm\<rparr>"

definition step :: "jsnum \<Rightarrow> jsnum option \<Rightarrow> Dynamic \<Rightarrow> Dynamic" where
  "step val sm d =
     (let d1 = (if mode d = INFINITE then d\<lparr>target := current d\<rparr> else d)
      in goto (jadd (target d1) val) (Some (default_arg (Fin 1) sm)) d1)"

definition roll :: "bool option \<Rightarrow> jsnum option \<Rightarrow> Dynamic \<Rightarrow> Dynamic" where
  "roll invert sm d =
     d\<lparr>mode := INFINITE,
       target := (if default_arg False invert then NegInf else PosInf),
       speedMult := default_arg (Fin 1) sm\<rparr>"

definition stop :: "Dynamic \<Rightarrow> Dynamic" where
  "stop d = d\<lparr>mode := STOP\<rparr>"

definition setCurrent :: "jsnum \<Rightarrow> Dynamic \<Rightarrow> Dynamic \<times> jsnum list" where
  "setCurrent c d = (d\<lparr>current := c, target := c, mode := STOP\<rparr>, [])"

text \<open>
  \<open>update\<close>, part by part as the source comments divide it: the switch to stop mode
  in the deceleration window, the speed, the new position (\<open>None\<close> is the source's
  \<open>null\<close>), and the application of the value.
\<close>

definition update_mode :: "Dynamic \<Rightarrow> Dynamic" where
  "update_mode d =
     (if mode d = POSITION then
        (let dstStop = jdiv (jmul (currentSpeed d) (currentSpeed d))
                            (jmul (jmul (speed d) (speedMult d)) (Fin 4))
         in if jlt (jabs (jsub (target d) (current d))) dstStop
            then d\<lparr>mode := STOP\<rparr> else d)
      else d)"

definition update_speed :: "jsnum \<Rightarrow> Dynamic \<Rightarrow> Dynamic" where
  "update_speed elapsed d =
     (let targetSpeed = (if mode d = STOP then Fin 0 else jmul (speed d) (speedMult d));
          ramp = jmul (jmul (jmul (jdiv elapsed (Fin 1000)) (speed d)) (speedMult d)) (Fin 2)
      in if jlt (currentSpeed d) targetSpeed
         then d\<lparr>currentSpeed := jmin targetSpeed (jadd (currentSpeed d) ramp)\<rparr>
         else if jgt (currentSpeed d) targetSpeed
         then d\<lparr>currentSpeed := jmax targetSpeed (jsub (currentSpeed d) ramp)\<rparr>
         else d)"

definition update_next :: "jsnum \<Rightarrow> Dynamic \<Rightarrow> jsnum option" where
  "update_next elapsed d =
     (if jgt (current d) (target d) \<and> truthy (currentSpeed d)
      then Some (jmax (target d)
                   (jsub (current d) (jdiv (jmul (currentSpeed d) elapsed) (Fin 1000))))
      else if jlt (current d) (target d) \<and> truthy (currentSpeed d)
      then Some (jmin (target d)
                   (jadd (current d) (jdiv (jmul (currentSpeed d) elapsed) (Fin 1000))))
      else None)"

definition update :: "jsnum \<Rightarrow> Dynamic \<Rightarrow> Dynamic \<times> bool \<times> jsnum list" where
  "update elapsed d0 =
     (let d = update_speed elapsed (update_mode d0)
      in case update_next elapsed d of
           None \<Rightarrow> (d, False, [])
         | Some nxt \<Rightarrow>
             (let nxt' = bound nxt (min_bound d) (max_bound d)
              in if jsne nxt' (current d)
                 then (let d' = d\<lparr>current := nxt'\<rparr>
                       in (d', True, if fn d' then [current d'] else []))
                 else (d, False, [])))"

section \<open>MultiDynamic\<close>

text \<open>
  An object with named properties is an association list with distinct keys, in the
  order in which the properties are enumerated. The axes of a \<open>MultiDynamic\<close> are
  taken to be distinct objects. Its callback \<open>fn\<close> is \<open>fn_multi\<close> here, and is
  modelled as the one of \<open>Dynamic\<close>.
\<close>

datatype error = TypeError

datatype call = AxisCall string jsnum | MultiCall "(string \<times> jsnum) list"

record MultiDynamic =
  fn_multi :: bool
  dynamics :: "(string \<times> Dynamic) list"

text \<open>
  Modelled from the spec: \<open>each\<close> is imported from the \<open>utils\<close> index, which is not
  among the sources. The spec has the callback invoked for each (name, value) pair
  present in the mapping; the callback receives the value, then the name. An error
  thrown by the callback ends the loop and leaves the state as it is at that moment.
\<close>

fun each :: "('k \<times> 'v) list \<Rightarrow> ('v \<Rightarrow> 'k \<Rightarrow> 's \<Rightarrow> 's \<times> error option) \<Rightarrow> 's \<Rightarrow> 's \<times> error option" where
  "each [] cb s = (s, None)"
| "each ((k, v) # kvs) cb s =
     (case cb v k s of
        (s', Some e) \<Rightarrow> (s', Some e)
      | (s', None) \<Rightarrow> each kvs cb s')"

text \<open>The axis \<open>name\<close> after a method has changed it in place.\<close>

definition put_axis :: "string \<Rightarrow> Dynamic \<Rightarrow> (string \<times> Dynamic) list \<Rightarrow> (string \<times> Dynamic) list" where
  "put_axis name d dyn = map (\<lambda>(k, v). if k = name then (k, d) else (k, v)) dyn"

text \<open>
  \<open>this.dynamics[name].method(...)\<close>: when \<open>dynamics\<close> has no property \<open>name\<close> the
  lookup gives \<open>undefined\<close>, and the method call on it throws a \<open>TypeError\<close>.
\<close>

definition axis_call :: "(Dynamic \<Rightarrow> Dynamic) \<Rightarrow> string \<Rightarrow> (string \<times> Dynamic) list
    \<Rightarrow> (string \<times> Dynamic) list \<times> error option" where
  "axis_call method name dyn =
     (case map_of dyn name of
        None \<Rightarrow> (dyn, Some TypeError)
      | Some d \<Rightarrow> (put_axis name (method d) dyn, None))"

definition MultiDynamic_set_speed :: "jsnum \<Rightarrow> MultiDynamic \<Rightarrow> MultiDynamic" where
  "MultiDynamic_set_speed v m =
     m\<lparr>dynamics := fst (each (dynamics m)
                          (\<lambda>d name dyn. (put_axis name (d\<lparr>speed := v\<rparr>) dyn, None))
                          (dynamics m))\<rparr>"

definition MultiDynamic_constructor :: "(string \<times> Dynamic) list \<Rightarrow> bool \<Rightarrow> MultiDynamic" where
  "MultiDynamic_constructor dyn f = \<lparr>fn_multi = f, dynamics = dyn\<rparr>"

definition MultiDynamic_goto :: "(string \<times> jsnum) list \<Rightarrow> jsnum option \<Rightarrow> MultiDynamic
    \<Rightarrow> MultiDynamic \<times> error option" where
  "MultiDynamic_goto positions sm m =
     (let speedMult = default_arg (Fin 1) sm;
          r = each positions (\<lambda>position name. axis_call (goto position (Some speedMult)) name)
                (dynamics m)
      in (m\<lparr>dynamics := fst r\<rparr>, snd r))"

definition MultiDynamic_step :: "(string \<times> jsnum) list \<Rightarrow> jsnum option \<Rightarrow> MultiDynamic
    \<Rightarrow> MultiDynamic \<times> error option" where
  "MultiDynamic_step steps sm m =
     (let speedMult = default_arg (Fin 1) sm;
          r = each steps (\<lambda>stp name. axis_call (step stp (Some speedMult)) name)
                (dynamics m)
      in (m\<lparr>dynamics := fst r\<rparr>, snd r))"

definition MultiDynamic_roll :: "(string \<times> bool) list \<Rightarrow> jsnum option \<Rightarrow> MultiDynamic
    \<Rightarrow> MultiDynamic \<times> error option" where
  "MultiDynamic_roll rolls sm m =
     (let speedMult = default_arg (Fin 1) sm;
          r = each rolls (\<lambda>rll name. axis_call (roll (Some rll) (Some speedMult)) name)
                (dynamics m)
      in (m\<lparr>dynamics := fst r\<rparr>, snd r))"

definition MultiDynamic_stop :: "MultiDynamic \<Rightarrow> MultiDynamic" where
  "MultiDynamic_stop m =
     m\<lparr>dynamics := fst (each (dynamics m)
                          (\<lambda>d name dyn. (put_axis name (stop d) dyn, None))
                          (dynamics m))\<rparr>"

definition MultiDynamic_setCurrent :: "(string \<times> jsnum) list \<Rightarrow> MultiDynamic
    \<Rightarrow> MultiDynamic \<times> error option" where
  "MultiDynamic_setCurrent currents m =
     (let r = each currents (\<lambda>c name. axis_call (\<lambda>d. fst (setCurrent c d)) name)
                (dynamics m)
      in (m\<lparr>dynamics := fst r\<rparr>, snd r))"

text \<open>
  \<open>hasUpdates\<close> starts as the boolean \<open>false\<close>, and \<open>hasUpdates |= ...\<close> makes it
  the bitwise or of the two sides, a number.
\<close>

datatype jsflag = JBool bool | JInt int

fun to_int32 :: "jsflag \<Rightarrow> int" where
  "to_int32 (JBool b) = (if b then 1 else 0)"
| "to_int32 (JInt i) = i"

definition bit_or :: "jsflag \<Rightarrow> bool \<Rightarrow> jsflag" where
  "bit_or h c = JInt (to_int32 h OR to_int32 (JBool c))"

fun flag_truthy :: "jsflag \<Rightarrow> bool" where
  "flag_truthy (JBool b) = b"
| "flag_truthy (JInt i) = (i \<noteq> 0)"

text \<open>\<open>values[name] = v\<close> on an object whose properties are listed in order.\<close>

fun assign :: "('k \<times> 'v) list \<Rightarrow> 'k \<Rightarrow> 'v \<Rightarrow> ('k \<times> 'v) list" where
  "assign [] k v = [(k, v)]"
| "assign ((k', v') # kvs) k v =
     (if k' = k then (k, v) # kvs else (k', v') # assign kvs k v)"

type_synonym update_acc = "(string \<times> Dynamic) list \<times> jsflag \<times> (string \<times> jsnum) list \<times> call list"

definition update_axis :: "jsnum \<Rightarrow> Dynamic \<Rightarrow> string \<Rightarrow> update_acc \<Rightarrow> update_acc \<times> error option" where
  "update_axis elapsed dynamic name acc =
     (case acc of (dyn, hasUpdates, values, calls) \<Rightarrow>
        (case update elapsed dynamic of (d', changed, cs) \<Rightarrow>
           ((put_axis name d' dyn, bit_or hasUpdates changed,
             assign values name (current d'), calls @ map (AxisCall name) cs), None)))"

definition MultiDynamic_update :: "jsnum \<Rightarrow> MultiDynamic \<Rightarrow> MultiDynamic \<times> jsflag \<times> call list" where
  "MultiDynamic_update elapsed m =
     (case fst (each (dynamics m) (update_axis elapsed) (dynamics m, JBool False, [], [])) of
        (dyn, hasUpdates, values, calls) \<Rightarrow>
          (m\<lparr>dynamics := dyn\<rparr>, hasUpdates,
           if flag_truthy hasUpdates \<and> fn_multi m then calls @ [MultiCall values] else calls))"

section \<open>Sequences of calls\<close>

text \<open>
  A caller's calls on one axis, to state what holds after any sequence of them.
  \<open>SetSpeed\<close> is the assignment to \<open>speed\<close>, which the setter of
  \<open>MultiDynamic\<close> makes on every axis.
\<close>

datatype op = Goto jsnum "jsnum option" | Step jsnum "jsnum option"
  | Roll "bool option" "jsnum option" | Stop | SetCurrent jsnum | Update jsnum | SetSpeed jsnum

fun apply_op :: "op \<Rightarrow> Dynamic \<Rightarrow> Dynamic" where
  "apply_op (Goto position sm) d = goto position sm d"
| "apply_op (Step val sm) d = step val sm d"
| "apply_op (Roll invert sm) d = roll invert sm d"
| "apply_op Stop d = stop d"
| "apply_op (SetCurrent c) d = fst (setCurrent c d)"
| "apply_op (Update elapsed) d = fst (update elapsed d)"
| "apply_op (SetSpeed v) d = d\<lparr>speed := v\<rparr>"

definition run :: "op list \<Rightarrow> Dynamic \<Rightarrow> Dynamic" where
  "run ops d = fold apply_op ops d"

text \<open>A finite number: a double or a zero.\<close>

fun is_fin :: "jsnum \<Rightarrow> bool" where
  "is_fin (Fin a) = True"
| "is_fin NegZero = True"
| "is_fin a = False"

text \<open>
  The calls under which the bounds are kept, for bounds \<open>lo\<close> and \<open>hi\<close>: a position
  that is a number, a finite step, a value for \<open>setCurrent\<close> that is within the bounds,
  and an \<open>update\<close> in which the position computed is not NaN.
\<close>

fun op_ok :: "jsnum \<Rightarrow> jsnum \<Rightarrow> Dynamic \<Rightarrow> op \<Rightarrow> bool" where
  "op_ok lo hi d (Goto position sm) = (position \<noteq> NaN)"
| "op_ok lo hi d (Step val sm) = is_fin val"
| "op_ok lo hi d (Roll invert sm) = True"
| "op_ok lo hi d Stop = True"
| "op_ok lo hi d (SetCurrent c) = (jle lo c \<and> jle c hi)"
| "op_ok lo hi d (Update elapsed) =
     (update_next elapsed (update_speed elapsed (update_mode d)) \<noteq> Some NaN)"
| "op_ok lo hi d (SetSpeed v) = True"

fun run_ok :: "jsnum \<Rightarrow> jsnum \<Rightarrow> op list \<Rightarrow> Dynamic \<Rightarrow> bool" where
  "run_ok lo hi [] d = True"
| "run_ok lo hi (x # xs) d = (op_ok lo hi d x \<and> run_ok lo hi xs (apply_op x d))"

text \<open>The invariant that these calls keep.\<close>

definition in_bounds :: "jsnum \<Rightarrow> jsnum \<Rightarrow> jsnum \<Rightarrow> bool" where
  "in_bounds lo hi x = (jle lo x \<and> jle x hi)"

definition axis_inv :: "jsnum \<Rightarrow> jsnum \<Rightarrow> Dynamic \<Rightarrow> bool" where
  "axis_inv lo hi d =
     (min_bound d = lo \<and> max_bound d = hi \<and> jle lo hi
      \<and> in_bounds lo hi (current d)
      \<and> (is_inf (target d) \<or> in_bounds lo hi (target d)))"

text \<open>\<open>n\<close> calls of \<open>update\<close> in a row, with the same elapsed time.\<close>

fun updates :: "nat \<Rightarrow> jsnum \<Rightarrow> Dynamic \<Rightarrow> Dynamic" where
  "updates 0 elapsed d = d"
| "updates (Suc n) elapsed d = updates n elapsed (fst (update elapsed d))"

text \<open>
  What the calls of \<open>update\<close> keep while an axis seeks a finite target within the
  bounds at the speed \<open>v\<close> with multiplier \<open>1\<close>: every field is a double, \<open>current\<close>
  and the current speed are finite, and the current speed is not negative.
\<close>

definition seeking :: "real \<Rightarrow> Dynamic \<Rightarrow> bool" where
  "seeking v d =
     (0 < v \<and> double v \<and> speed d = Fin v \<and> speedMult d = Fin 1
      \<and> is_fin (target d) \<and> is_double (target d)
      \<and> in_bounds (min_bound d) (max_bound d) (target d)
      \<and> is_double (min_bound d) \<and> is_double (max_bound d)
      \<and> is_fin (current d) \<and> is_double (current d)
      \<and> is_fin (currentSpeed d) \<and> is_double (currentSpeed d)
      \<and> jle (Fin 0) (currentSpeed d))"

text \<open>
  The finite doubles are multiples of \<open>2^-1074\<close>; \<open>ticks x\<close> is the number of such steps in
  the distance \<open>\<bar>x\<bar>\<close>. \<open>slack v d\<close> bounds the number of calls of \<open>update\<close> that can
  still change an axis without changing its mode: the steps between \<open>current\<close> and the
  target, the steps between the current speed and the speed it tends to (\<open>0\<close> in mode
  \<open>STOP\<close>, otherwise \<open>v\<close>), and one more when the current speed is \<open>-0\<close>.
\<close>

definition ticks :: "real \<Rightarrow> nat" where
  "ticks x = nat \<lfloor>\<bar>x\<bar> * 2 powi 1074\<rfloor>"

definition slack :: "real \<Rightarrow> Dynamic \<Rightarrow> nat" where
  "slack v d =
     ticks (rv (target d) - rv (current d))
     + ticks ((if mode d = STOP then 0 else v) - rv (currentSpeed d))
     + (if currentSpeed d = NegZero then 1 else 0)"

section \<open>Rounding\<close>

lemma floor_log2_iff:
  assumes "x \<noteq> 0"
  shows "\<lfloor>log 2 \<bar>x\<bar>\<rfloor> = k \<longleftrightarrow> 2 powi k \<le> \<bar>x\<bar> \<and> \<bar>x\<bar> < 2 powi (k + 1)"
proof -
  have "0 < \<bar>x\<bar>" using assms by simp
  then show ?thesis
    using floor_log_eq_powr_iff [of "\<bar>x\<bar>" 2 k]
    by (simp add: powr_real_of_int' del: of_int_add)
qed

lemma round_even_int [simp]: "round_even (of_int z) = z"
  by (simp add: round_even_def)

lemma round_even_ge: "of_int z \<le> q \<Longrightarrow> z \<le> round_even q"
proof -
  assume "of_int z \<le> q"
  then have "z \<le> \<lfloor>q\<rfloor>" by (simp add: le_floor_iff)
  then show ?thesis by (simp add: round_even_def Let_def)
qed

lemma round_even_le: "q \<le> of_int z \<Longrightarrow> round_even q \<le> z"
proof -
  assume a: "q \<le> of_int z"
  show ?thesis
  proof (cases "q = of_int \<lfloor>q\<rfloor>")
    case True
    with a have "\<lfloor>q\<rfloor> \<le> z" by linarith
    moreover from True have "q - of_int \<lfloor>q\<rfloor> = 0" by simp
    ultimately show ?thesis by (simp add: round_even_def Let_def)
  next
    case False
    then have "of_int \<lfloor>q\<rfloor> < q" by (metis of_int_floor_le order_less_le)
    with a have "\<lfloor>q\<rfloor> < z" by linarith
    then show ?thesis by (simp add: round_even_def Let_def)
  qed
qed

lemma p2_less_iff [simp]: "(2::real) powi a < 2 powi b \<longleftrightarrow> a < b"
proof
  assume "(2::real) powi a < 2 powi b"
  show "a < b"
  proof (rule ccontr)
    assume "\<not> a < b"
    then have "(2::real) powi b \<le> 2 powi a"
      by (intro power_int_increasing) auto
    with \<open>(2::real) powi a < 2 powi b\<close> show False by simp
  qed
next
  assume "a < b"
  then show "(2::real) powi a < 2 powi b"
    by (intro power_int_strict_increasing) auto
qed

lemma p2_le_iff [simp]: "(2::real) powi a \<le> 2 powi b \<longleftrightarrow> a \<le> b"
  using p2_less_iff [of b a] by (auto simp: not_less [symmetric] simp del: p2_less_iff)

lemma p2_add: "(2::real) powi (a + b) = 2 powi a * 2 powi b"
  by (simp add: power_int_add)

lemma p2_split: "a \<le> b \<Longrightarrow> (2::real) powi b = 2 powi a * of_int (2 ^ nat (b - a))"
proof -
  assume "a \<le> b"
  have "(2::real) powi b = 2 powi (a + (b - a))" by simp
  also have "\<dots> = 2 powi a * 2 powi (b - a)" by (rule p2_add)
  also have "(2::real) powi (b - a) = 2 ^ nat (b - a)"
    using \<open>a \<le> b\<close> by (simp add: power_int_def)
  finally show ?thesis by simp
qed

lemma expo_bounds:
  assumes "x \<noteq> 0"
  shows "- 1022 \<le> expo x" "\<bar>x\<bar> < 2 powi (expo x + 1)"
    "- 1022 < expo x \<Longrightarrow> 2 powi expo x \<le> \<bar>x\<bar>"
proof -
  let ?k = "\<lfloor>log 2 \<bar>x\<bar>\<rfloor>"
  have k: "2 powi ?k \<le> \<bar>x\<bar>" "\<bar>x\<bar> < 2 powi (?k + 1)"
    using floor_log2_iff [OF assms, of ?k] by simp_all
  show "- 1022 \<le> expo x" by (simp add: expo_def)
  have "(2::real) powi (?k + 1) \<le> 2 powi (expo x + 1)" by (simp add: expo_def)
  with k(2) show "\<bar>x\<bar> < 2 powi (expo x + 1)" by linarith
  show "2 powi expo x \<le> \<bar>x\<bar>" if "- 1022 < expo x"
    using that k(1) by (simp add: expo_def max_def split: if_splits)
qed

lemma expo_le:
  assumes "x \<noteq> 0" "\<bar>x\<bar> < 2 powi (k + 1)" "- 1022 \<le> k"
  shows "expo x \<le> k"
proof -
  let ?k = "\<lfloor>log 2 \<bar>x\<bar>\<rfloor>"
  have "2 powi ?k \<le> \<bar>x\<bar>"
    using floor_log2_iff [OF assms(1), of ?k] by simp
  with assms(2) have "(2::real) powi ?k < 2 powi (k + 1)" by linarith
  then show ?thesis using assms(3) by (simp add: expo_def)
qed

lemma double_multiple:
  assumes "double x" "x \<noteq> 0" "e' \<le> expo x - 52"
  shows "\<exists>z. x = of_int z * 2 powi e'"
proof -
  from assms(1) obtain m e where x: "x = of_int m * 2 powi e" and m: "\<bar>m\<bar> < 2 ^ 53"
    and e: "- 1074 \<le> e" "e \<le> 971"
    by (auto simp: double_def)
  have "\<bar>x\<bar> = of_int \<bar>m\<bar> * 2 powi e" by (simp add: x abs_mult)
  also have "\<dots> < 2 ^ 53 * 2 powi e"
    using m by (intro mult_strict_right_mono) (simp_all flip: of_int_less_iff)
  also have "\<dots> = 2 powi (52 + e + 1)" by (simp add: power_int_add)
  finally have "\<bar>x\<bar> < 2 powi (52 + e + 1)" .
  from expo_le [OF assms(2) this] e have "expo x \<le> 52 + e" by simp
  with assms(3) have "e' \<le> e" by simp
  from p2_split [OF this] have "x = of_int (m * 2 ^ nat (e - e')) * 2 powi e'"
    by (simp add: x)
  then show ?thesis ..
qed

lemma double_less_max:
  assumes "double x"
  shows "\<bar>x\<bar> < huge"
proof -
  from assms(1) obtain m e where x: "x = of_int m * 2 powi e" and m: "\<bar>m\<bar> < 2 ^ 53"
    and e: "- 1074 \<le> e" "e \<le> 971"
    by (auto simp: double_def)
  have "\<bar>x\<bar> = of_int \<bar>m\<bar> * 2 powi e" by (simp add: x abs_mult)
  also have "\<dots> < 2 ^ 53 * 2 powi e"
    using m by (intro mult_strict_right_mono) (simp_all flip: of_int_less_iff)
  also have "\<dots> = 2 powi (53 + e)" by (simp add: power_int_add)
  also have "\<dots> \<le> huge" unfolding huge_def using e by (simp only: p2_le_iff)
  finally show ?thesis .
qed

lemma fl_exact:
  assumes "double x" "x \<noteq> 0"
  shows "fl x = Fin x"
proof -
  from double_multiple [OF assms order_refl] obtain z where
    z: "x = of_int z * 2 powi (expo x - 52)" ..
  have "x / 2 powi (expo x - 52) = of_int z"
    by (subst z) simp
  then have "of_int (round_even (x / 2 powi (expo x - 52))) * 2 powi (expo x - 52) = x"
    using z by simp
  then show ?thesis
    using assms(2) double_less_max [OF assms(1)] by (simp add: fl_def Let_def)
qed

lemma expo_mono: "a \<noteq> 0 \<Longrightarrow> \<bar>a\<bar> \<le> \<bar>b\<bar> \<Longrightarrow> expo a \<le> expo b"
proof -
  assume a: "a \<noteq> 0" and ab: "\<bar>a\<bar> \<le> \<bar>b\<bar>"
  then have b: "b \<noteq> 0" by auto
  from expo_bounds(2) [OF b] ab have "\<bar>a\<bar> < 2 powi (expo b + 1)" by linarith
  from expo_le [OF a this expo_bounds(1) [OF b]] show ?thesis .
qed

lemma fl_rounded:
  "fl x =
     (if x = 0 then Fin 0
      else if huge \<le> \<bar>rounded x\<bar> then (if 0 < x then PosInf else NegInf)
      else if rounded x = 0 then (if 0 < x then Fin 0 else NegZero)
      else Fin (rounded x))"
  by (simp add: fl_def rounded_def Let_def)

lemma rounded_ge_multiple:
  "of_int z * 2 powi (expo x - 52) \<le> x \<Longrightarrow> of_int z * 2 powi (expo x - 52) \<le> rounded x"
proof -
  let ?u = "(2::real) powi (expo x - 52)"
  assume "of_int z * ?u \<le> x"
  then have "of_int z \<le> x / ?u" by (simp add: pos_le_divide_eq)
  then have "z \<le> round_even (x / ?u)" by (rule round_even_ge)
  then have "of_int z * ?u \<le> of_int (round_even (x / ?u)) * ?u"
    by (intro mult_right_mono) simp_all
  then show ?thesis by (simp add: rounded_def)
qed

lemma rounded_le_multiple:
  "x \<le> of_int z * 2 powi (expo x - 52) \<Longrightarrow> rounded x \<le> of_int z * 2 powi (expo x - 52)"
proof -
  let ?u = "(2::real) powi (expo x - 52)"
  assume "x \<le> of_int z * ?u"
  then have "x / ?u \<le> of_int z" by (simp add: pos_divide_le_eq)
  then have "round_even (x / ?u) \<le> z" by (rule round_even_le)
  then have "of_int (round_even (x / ?u)) * ?u \<le> of_int z * ?u"
    by (intro mult_right_mono) simp_all
  then show ?thesis by (simp add: rounded_def)
qed

lemma rounded_0 [simp]: "rounded 0 = 0"
  using round_even_int [of 0] by (simp add: rounded_def del: round_even_int)

lemma rounded_nonneg: "0 \<le> x \<Longrightarrow> 0 \<le> rounded x"
  using rounded_ge_multiple [of 0 x] by simp

lemma rounded_nonpos: "x \<le> 0 \<Longrightarrow> rounded x \<le> 0"
  using rounded_le_multiple [of x 0] by simp

lemma p2_expo: "(2::real) powi expo x = of_int (2 ^ 52) * 2 powi (expo x - 52)"
  using p2_split [of "expo x - 52" "expo x"] by simp

lemma rounded_ge_double:
  assumes "double c" "c \<le> x"
  shows "c \<le> rounded x"
proof (cases "c = 0 \<or> x = 0")
  case True
  then show ?thesis
  proof
    assume "c = 0"
    with assms(2) show ?thesis by (simp add: rounded_nonneg)
  next
    assume "x = 0"
    with assms(2) show ?thesis by simp
  qed
next
  case False
  then have c: "c \<noteq> 0" and x: "x \<noteq> 0" by auto
  show ?thesis
  proof (cases "expo x \<le> expo c")
    case True
    then have "expo x - 52 \<le> expo c - 52" by simp
    from double_multiple [OF assms(1) c this] obtain z where
      z: "c = of_int z * 2 powi (expo x - 52)" ..
    with assms(2) rounded_ge_multiple [of z x] show ?thesis by simp
  next
    case False
    then have lt: "expo c + 1 \<le> expo x" and big: "- 1022 < expo x"
      using expo_bounds(1) [OF c] by simp_all
    have "\<bar>c\<bar> < 2 powi (expo c + 1)" by (rule expo_bounds(2) [OF c])
    also have "\<dots> \<le> 2 powi expo x" using lt by simp
    finally have cx: "\<bar>c\<bar> < 2 powi expo x" .
    have xx: "2 powi expo x \<le> \<bar>x\<bar>" by (rule expo_bounds(3) [OF x big])
    have "0 < x"
    proof (rule ccontr)
      assume "\<not> 0 < x"
      with x assms(2) have "\<bar>x\<bar> \<le> \<bar>c\<bar>" by simp
      with cx xx show False by linarith
    qed
    with xx have "of_int (2 ^ 52) * 2 powi (expo x - 52) \<le> x"
      by (simp only: p2_expo [symmetric])
    from rounded_ge_multiple [OF this] have "2 powi expo x \<le> rounded x"
      by (simp only: p2_expo [symmetric])
    with cx show ?thesis by linarith
  qed
qed

lemma rounded_le_double:
  assumes "double c" "x \<le> c"
  shows "rounded x \<le> c"
proof (cases "c = 0 \<or> x = 0")
  case True
  then show ?thesis
  proof
    assume "c = 0"
    with assms(2) show ?thesis by (simp add: rounded_nonpos)
  next
    assume "x = 0"
    with assms(2) show ?thesis by simp
  qed
next
  case False
  then have c: "c \<noteq> 0" and x: "x \<noteq> 0" by auto
  show ?thesis
  proof (cases "expo x \<le> expo c")
    case True
    then have "expo x - 52 \<le> expo c - 52" by simp
    from double_multiple [OF assms(1) c this] obtain z where
      z: "c = of_int z * 2 powi (expo x - 52)" ..
    with assms(2) rounded_le_multiple [of x z] show ?thesis by simp
  next
    case False
    then have lt: "expo c + 1 \<le> expo x" and big: "- 1022 < expo x"
      using expo_bounds(1) [OF c] by simp_all
    have "\<bar>c\<bar> < 2 powi (expo c + 1)" by (rule expo_bounds(2) [OF c])
    also have "\<dots> \<le> 2 powi expo x" using lt by simp
    finally have cx: "\<bar>c\<bar> < 2 powi expo x" .
    have xx: "2 powi expo x \<le> \<bar>x\<bar>" by (rule expo_bounds(3) [OF x big])
    have "x < 0"
    proof (rule ccontr)
      assume "\<not> x < 0"
      with x assms(2) have "\<bar>x\<bar> \<le> \<bar>c\<bar>" by simp
      with cx xx show False by linarith
    qed
    with xx have "x \<le> of_int (- (2 ^ 52)) * 2 powi (expo x - 52)"
      using p2_expo [of x] by simp
    from rounded_le_multiple [OF this] have "rounded x \<le> - (2 powi expo x)"
      using p2_expo [of x] by simp
    with cx show ?thesis by linarith
  qed
qed

lemma rounded_abs_ge:
  assumes "x \<noteq> 0" "- 1022 < expo x"
  shows "2 powi expo x \<le> \<bar>rounded x\<bar>"
proof (cases "0 < x")
  case True
  with expo_bounds(3) [OF assms] have "of_int (2 ^ 52) * 2 powi (expo x - 52) \<le> x"
    using p2_expo [of x] by simp
  from rounded_ge_multiple [OF this] show ?thesis
    using p2_expo [of x] by simp
next
  case False
  with expo_bounds(3) [OF assms] assms(1)
  have "x \<le> of_int (- (2 ^ 52)) * 2 powi (expo x - 52)"
    using p2_expo [of x] by simp
  from rounded_le_multiple [OF this] show ?thesis
    using p2_expo [of x] by simp
qed

lemma double_0 [simp]: "double 0"
  unfolding double_def by (rule exI [of _ 0], rule exI [of _ 0]) simp

lemma double_intro:
  "\<bar>m\<bar> < 2 ^ 53 \<Longrightarrow> - 1074 \<le> e \<Longrightarrow> e \<le> 971 \<Longrightarrow> double (of_int m * 2 powi e)"
  unfolding double_def by blast

lemma rounded_double:
  assumes "\<bar>rounded x\<bar> < huge"
  shows "double (rounded x)"
proof (cases "x = 0")
  case True
  then show ?thesis by simp
next
  case False
  define E where "E = expo x"
  define u where "u = (2::real) powi (E - 52)"
  define n where "n = round_even (x / u)"
  have r: "rounded x = of_int n * u" by (simp add: rounded_def n_def u_def E_def)
  have u: "0 < u" by (simp add: u_def)
  have E1: "- 1022 \<le> E" unfolding E_def by (rule expo_bounds(1) [OF False])
  have E2: "E \<le> 1023"
  proof (rule ccontr)
    assume "\<not> E \<le> 1023"
    then have big: "- 1022 < expo x" and "1024 \<le> E" by (simp_all add: E_def)
    then have "huge \<le> 2 powi E" unfolding huge_def by (simp only: p2_le_iff)
    with rounded_abs_ge [OF False big] assms show False by (simp add: E_def)
  qed
  have "\<bar>x\<bar> < 2 powi (E + 1)" unfolding E_def by (rule expo_bounds(2) [OF False])
  also have "\<dots> = of_int (2 ^ 53) * u"
    using p2_split [of "E - 52" "E + 1"] by (simp add: u_def)
  finally have ax: "\<bar>x\<bar> < of_int (2 ^ 53) * u" .
  then have "x \<le> of_int (2 ^ 53) * u" "of_int (- (2 ^ 53)) * u \<le> x" by simp_all
  then have q: "x / u \<le> of_int (2 ^ 53)" "of_int (- (2 ^ 53)) \<le> x / u"
    using u by (simp_all add: pos_le_divide_eq pos_divide_le_eq)
  have n: "n \<le> 2 ^ 53" "- (2 ^ 53) \<le> n"
    unfolding n_def using round_even_le [OF q(1)] round_even_ge [OF q(2)] by blast+
  show ?thesis
  proof (cases "\<bar>n\<bar> < 2 ^ 53")
    case True
    have "double (of_int n * 2 powi (E - 52))"
      using True E1 E2 by (intro double_intro) simp_all
    then show ?thesis by (simp add: r u_def)
  next
    case False
    with n have n': "n = 2 ^ 53 \<or> n = - (2 ^ 53)" by linarith
    have pw: "(2::real) powi (E - 51) = 2 * u"
      using p2_split [of "E - 52" "E - 51"] by (simp add: u_def)
    have "\<bar>rounded x\<bar> = 2 powi (E + 1)"
      using n' p2_split [of "E - 52" "E + 1"] by (auto simp: r abs_mult u_def)
    with assms have "(2::real) powi (E + 1) < huge" by linarith
    then have "E + 1 < 1024" unfolding huge_def by (simp only: p2_less_iff)
    then have E3: "E \<le> 1022" by simp
    have d: "double (of_int m * 2 powi (E - 51))" if "\<bar>m\<bar> < 2 ^ 53" for m
      using that E1 E3 by (intro double_intro) simp_all
    from n' show ?thesis
    proof
      assume "n = 2 ^ 53"
      then have "rounded x = of_int (2 ^ 52) * 2 powi (E - 51)"
        by (simp add: r pw)
      with d [of "2 ^ 52"] show ?thesis by simp
    next
      assume "n = - (2 ^ 53)"
      then have "rounded x = of_int (- (2 ^ 52)) * 2 powi (E - 51)"
        by (simp add: r pw)
      with d [of "- (2 ^ 52)"] show ?thesis by simp
    qed
  qed
qed

lemma fl_not_NaN [simp]: "fl x \<noteq> NaN"
  by (simp add: fl_rounded)

lemma fl_double [simp]: "is_double (fl x)"
  using rounded_double [of x] by (simp add: fl_rounded not_le)

lemma fl_ge: "double c \<Longrightarrow> c \<le> x \<Longrightarrow> jle (Fin c) (fl x)"
  using rounded_ge_double [of c x] rounded_nonpos [of x] double_less_max [of c]
  by (auto simp: fl_rounded jle_def jlt_def)

lemma fl_le: "double c \<Longrightarrow> x \<le> c \<Longrightarrow> jle (fl x) (Fin c)"
  using rounded_le_double [of c x] rounded_nonneg [of x] double_less_max [of c]
  by (auto simp: fl_rounded jle_def jlt_def)

section \<open>Order, minimum and maximum\<close>

lemma jle_iff:
  "jle a b \<longleftrightarrow> a \<noteq> NaN \<and> b \<noteq> NaN \<and> (level a < level b \<or> level a = level b \<and> rv a \<le> rv b)"
  by (auto simp: jle_def jlt_def)

lemma jle_refl [simp]: "jle a a \<longleftrightarrow> a \<noteq> NaN"
  by (simp add: jle_iff)

lemma jle_trans: "jle a b \<Longrightarrow> jle b c \<Longrightarrow> jle a c"
  by (auto simp: jle_iff)

lemma jlt_imp_jle: "jlt a b \<Longrightarrow> jle a b"
  by (auto simp: jle_iff jlt_def)

lemma jle_not_NaN: "jle a b \<Longrightarrow> a \<noteq> NaN \<and> b \<noteq> NaN"
  by (simp add: jle_iff)

lemma level_cases: "level a = - 1 \<or> level a = 0 \<or> level a = 1"
  by (cases a) simp_all

lemma is_inf_level: "is_inf a \<longleftrightarrow> level a \<noteq> 0"
  by (cases a) simp_all

lemma is_fin_level: "is_fin a \<longleftrightarrow> a \<noteq> NaN \<and> level a = 0"
  by (cases a) simp_all

lemma jle_between_fin: "jle a r \<Longrightarrow> jle r b \<Longrightarrow> is_fin a \<Longrightarrow> is_fin b \<Longrightarrow> is_fin r"
  using level_cases [of r] by (auto simp: jle_iff is_fin_level)

lemma jmin_cases: "jmin a b = a \<or> jmin a b = b \<or> jmin a b = NaN \<or> jmin a b = NegZero \<and> is_zero a \<and> is_zero b"
  by (cases a; cases b) (auto simp: jmin_def jlt_def)

lemma jmax_cases: "jmax a b = a \<or> jmax a b = b \<or> jmax a b = NaN \<or> jmax a b = Fin 0 \<and> is_zero a \<and> is_zero b"
  by (cases a; cases b) (auto simp: jmax_def jlt_def)

lemma jmin_NaN: "jmin a b = NaN \<longleftrightarrow> a = NaN \<or> b = NaN"
  by (auto simp: jmin_def)

lemma jmax_NaN: "jmax a b = NaN \<longleftrightarrow> a = NaN \<or> b = NaN"
  by (auto simp: jmax_def)

lemma jmin_key:
  "a \<noteq> NaN \<Longrightarrow> b \<noteq> NaN \<Longrightarrow>
   level (jmin a b) = (if jlt b a then level b else level a)
   \<and> rv (jmin a b) = (if jlt b a then rv b else rv a)"
  by (auto simp: jmin_def jlt_def)

lemma jmax_key:
  "a \<noteq> NaN \<Longrightarrow> b \<noteq> NaN \<Longrightarrow>
   level (jmax a b) = (if jlt a b then level b else level a)
   \<and> rv (jmax a b) = (if jlt a b then rv b else rv a)"
  by (auto simp: jmax_def jlt_def)

lemma jmin_le:
  assumes "a \<noteq> NaN" "b \<noteq> NaN"
  shows "jle (jmin a b) a" "jle (jmin a b) b" "jle c a \<Longrightarrow> jle c b \<Longrightarrow> jle c (jmin a b)"
  using assms jmin_key [OF assms] by (auto simp: jle_iff jmin_NaN jlt_def split: if_splits)

lemma jmax_ge:
  assumes "a \<noteq> NaN" "b \<noteq> NaN"
  shows "jle a (jmax a b)" "jle b (jmax a b)" "jle a c \<Longrightarrow> jle b c \<Longrightarrow> jle (jmax a b) c"
  using assms jmax_key [OF assms] by (auto simp: jle_iff jmax_NaN jlt_def split: if_splits)

lemma is_double_jmin: "is_double a \<Longrightarrow> is_double b \<Longrightarrow> is_double (jmin a b)"
  using jmin_cases [of a b] by auto

lemma is_double_jmax: "is_double a \<Longrightarrow> is_double b \<Longrightarrow> is_double (jmax a b)"
  using jmax_cases [of a b] by auto

lemma bound_NaN: "bound n lo hi = NaN \<longleftrightarrow> n = NaN \<or> lo = NaN \<or> hi = NaN"
  by (auto simp: bound_def jmin_NaN jmax_NaN)

lemma bound_range:
  assumes "jle lo hi" "n \<noteq> NaN"
  shows "jle lo (bound n lo hi)" "jle (bound n lo hi) hi"
proof -
  from assms(1) have nn: "lo \<noteq> NaN" "hi \<noteq> NaN" by (simp_all add: jle_iff)
  have m: "jmin hi n \<noteq> NaN" using nn assms(2) by (simp add: jmin_NaN)
  show "jle lo (bound n lo hi)"
    unfolding bound_def by (rule jmax_ge(1) [OF nn(1) m])
  show "jle (bound n lo hi) hi"
    unfolding bound_def
    by (rule jmax_ge(3) [OF nn(1) m assms(1) jmin_le(1) [OF nn(2) assms(2)]])
qed

lemma bound_toward:
  assumes "jle lo t" "jle t hi" "n \<noteq> NaN"
  shows "jle n t \<Longrightarrow> jle n (bound n lo hi) \<and> jle (bound n lo hi) t"
    "jle t n \<Longrightarrow> jle t (bound n lo hi) \<and> jle (bound n lo hi) n"
proof -
  from assms(1,2) have nn: "lo \<noteq> NaN" "hi \<noteq> NaN" "t \<noteq> NaN" by (simp_all add: jle_iff)
  have m: "jmin hi n \<noteq> NaN" using nn assms(3) by (simp add: jmin_NaN)
  {
    assume nt: "jle n t"
    have "jle n (jmin hi n)"
      by (rule jmin_le(3) [OF nn(2) assms(3) jle_trans [OF nt assms(2)]]) (simp add: assms(3))
    then have 1: "jle n (bound n lo hi)"
      unfolding bound_def by (rule jle_trans [OF _ jmax_ge(2) [OF nn(1) m]])
    have "jle (jmin hi n) t"
      by (rule jle_trans [OF jmin_le(2) [OF nn(2) assms(3)] nt])
    then have 2: "jle (bound n lo hi) t"
      unfolding bound_def by (rule jmax_ge(3) [OF nn(1) m assms(1)])
    from 1 2 show "jle n (bound n lo hi) \<and> jle (bound n lo hi) t" ..
  }
  {
    assume tn: "jle t n"
    have "jle t (jmin hi n)"
      by (rule jmin_le(3) [OF nn(2) assms(3) assms(2) tn])
    then have 1: "jle t (bound n lo hi)"
      unfolding bound_def by (rule jle_trans [OF _ jmax_ge(2) [OF nn(1) m]])
    have "jle (jmax lo (jmin hi n)) n"
      by (rule jmax_ge(3) [OF nn(1) m jle_trans [OF assms(1) tn] jmin_le(2) [OF nn(2) assms(3)]])
    then have 2: "jle (bound n lo hi) n" by (simp add: bound_def)
    from 1 2 show "jle t (bound n lo hi) \<and> jle (bound n lo hi) n" ..
  }
qed

lemma is_double_bound:
  "is_double n \<Longrightarrow> is_double lo \<Longrightarrow> is_double hi \<Longrightarrow> is_double (bound n lo hi)"
  by (simp add: bound_def is_double_jmin is_double_jmax)

lemma double_minus: "double x \<Longrightarrow> double (- x)"
proof -
  assume "double x"
  then obtain m e where "x = of_int m * 2 powi e" "\<bar>m\<bar> < 2 ^ 53" "- 1074 \<le> e" "e \<le> 971"
    by (auto simp: double_def)
  then have "- x = of_int (- m) * 2 powi e" "\<bar>- m\<bar> < 2 ^ 53" by simp_all
  with \<open>- 1074 \<le> e\<close> \<open>e \<le> 971\<close> show ?thesis
    unfolding double_def by blast
qed

lemma is_double_jneg: "is_double a \<Longrightarrow> is_double (jneg a)"
  by (cases a) (simp_all add: double_minus)

lemma is_double_zero_of [simp]: "is_double (zero_of s)"
  by (simp add: zero_of_def)

lemma is_double_inf_of [simp]: "is_double (inf_of s)"
  by (simp add: inf_of_def)

lemma is_double_jadd: "is_double a \<Longrightarrow> is_double b \<Longrightarrow> is_double (jadd a b)"
  by (simp add: jadd_def)

lemma is_double_jsub: "is_double a \<Longrightarrow> is_double b \<Longrightarrow> is_double (jsub a b)"
  by (simp add: jsub_def is_double_jadd is_double_jneg)

lemma is_double_jmul [simp]: "is_double (jmul a b)"
  by (simp add: jmul_def)

lemma is_double_jdiv [simp]: "is_double (jdiv a b)"
  by (simp add: jdiv_def)

lemma fl_nonneg: "0 \<le> x \<Longrightarrow> jle (Fin 0) (fl x)"
  by (rule fl_ge) simp_all

lemma fl_nonpos: "x \<le> 0 \<Longrightarrow> jle (fl x) (Fin 0)"
  by (rule fl_le) simp_all

lemma nonneg_cases:
  "jle (Fin 0) a \<longleftrightarrow> a = PosInf \<or> a = NegZero \<or> (\<exists>x. a = Fin x \<and> 0 \<le> x)"
  by (cases a) (auto simp: jle_iff)

lemma nonneg_zero_of: "jle (Fin 0) (zero_of s)"
  by (simp add: zero_of_def jle_iff)

lemma jmul_pos: "jle (Fin 0) a \<Longrightarrow> 0 < c \<Longrightarrow> jle (Fin 0) (jmul a (Fin c))"
proof -
  assume a: "jle (Fin 0) a" and c: "0 < c"
  from a consider "a = PosInf" | "a = NegZero" | x where "a = Fin x" "0 \<le> x"
    by (auto simp: nonneg_cases)
  then show ?thesis
  proof cases
    case 1
    then show ?thesis using c by (simp add: jmul_def inf_of_def jle_iff)
  next
    case 2
    then show ?thesis using c by (simp add: jmul_def nonneg_zero_of)
  next
    case 3
    then have "0 \<le> x * c" using c by simp
    from fl_nonneg [OF this] show ?thesis
      using 3 c by (simp add: jmul_def nonneg_zero_of)
  qed
qed

lemma jdiv_pos: "jle (Fin 0) a \<Longrightarrow> 0 < c \<Longrightarrow> jle (Fin 0) (jdiv a (Fin c))"
proof -
  assume a: "jle (Fin 0) a" and c: "0 < c"
  from a consider "a = PosInf" | "a = NegZero" | x where "a = Fin x" "0 \<le> x"
    by (auto simp: nonneg_cases)
  then show ?thesis
  proof cases
    case 1
    then show ?thesis using c by (simp add: jdiv_def inf_of_def jle_iff)
  next
    case 2
    then show ?thesis using c by (simp add: jdiv_def nonneg_zero_of)
  next
    case 3
    then have "0 \<le> x / c" using c by simp
    from fl_nonneg [OF this] show ?thesis
      using 3 c by (simp add: jdiv_def nonneg_zero_of)
  qed
qed

lemma jadd_nonneg: "jle (Fin 0) a \<Longrightarrow> jle (Fin 0) b \<Longrightarrow> jle (Fin 0) (jadd a b)"
proof -
  assume a: "jle (Fin 0) a" and b: "jle (Fin 0) b"
  from a consider "a = PosInf" | "a = NegZero" | x where "a = Fin x" "0 \<le> x"
    by (auto simp: nonneg_cases)
  then show ?thesis
  proof cases
    case 1
    then show ?thesis using b by (cases b) (simp_all add: jadd_def jle_iff)
  next
    case 2
    from b consider "b = PosInf" | "b = NegZero" | y where "b = Fin y" "0 \<le> y"
      by (auto simp: nonneg_cases)
    then show ?thesis
    proof cases
      case 3
      from fl_nonneg [OF 3(2)] show ?thesis using 2 3 by (simp add: jadd_def)
    qed (use 2 in \<open>simp_all add: jadd_def jle_iff\<close>)
  next
    case 3
    from b consider "b = PosInf" | "b = NegZero" | y where "b = Fin y" "0 \<le> y"
      by (auto simp: nonneg_cases)
    then show ?thesis
    proof cases
      case 1
      then show ?thesis using 3 by (simp add: jadd_def jle_iff)
    next
      case 2
      from fl_nonneg [OF 3(2)] show ?thesis using 2 3 by (simp add: jadd_def)
    next
      case b3: 3
      then have "0 \<le> x + y" using 3 by simp
      from fl_nonneg [OF this] show ?thesis using 3 b3 by (simp add: jadd_def)
    qed
  qed
qed

lemma jadd_ge:
  assumes "is_fin c" "is_double c" "jle (Fin 0) x"
  shows "jle c (jadd c x)"
proof -
  from assms(1,2) have c: "double (rv c)" "c \<noteq> NaN" "\<not> is_inf c"
    by (cases c; simp)+
  from assms(3) consider "x = PosInf" | "x = NegZero" | y where "x = Fin y" "0 \<le> y"
    by (auto simp: nonneg_cases)
  then show ?thesis
  proof cases
    case 1
    then show ?thesis using assms(1) by (cases c) (simp_all add: jadd_def jle_iff)
  next
    case 2
    have "jle (Fin (rv c)) (fl (rv c + 0))" by (rule fl_ge [OF c(1)]) simp
    then show ?thesis using 2 assms(1) by (cases c) (auto simp: jadd_def jle_iff)
  next
    case 3
    have "jle (Fin (rv c)) (fl (rv c + y))" by (rule fl_ge [OF c(1)]) (use 3 in simp)
    then show ?thesis using 3 assms(1) by (cases c) (auto simp: jadd_def jle_iff)
  qed
qed

lemma jsub_le:
  assumes "is_fin c" "is_double c" "jle (Fin 0) x"
  shows "jle (jsub c x) c"
proof -
  from assms(1,2) have c: "double (rv c)" "c \<noteq> NaN" "\<not> is_inf c"
    by (cases c; simp)+
  from assms(3) consider "x = PosInf" | "x = NegZero" | y where "x = Fin y" "0 \<le> y"
    by (auto simp: nonneg_cases)
  then show ?thesis
  proof cases
    case 1
    then show ?thesis using assms(1) by (cases c) (simp_all add: jsub_def jadd_def jle_iff)
  next
    case 2
    have "jle (fl (rv c + 0)) (Fin (rv c))" by (rule fl_le [OF c(1)]) simp
    then show ?thesis using 2 assms(1) by (cases c) (auto simp: jsub_def jadd_def jle_iff)
  next
    case 3
    have "jle (fl (rv c + - y)) (Fin (rv c))" by (rule fl_le [OF c(1)]) (use 3 in simp)
    then show ?thesis using 3 assms(1)
      by (cases c) (auto simp: jsub_def jadd_def jle_iff)
  qed
qed

lemma jmul_one: "double v \<Longrightarrow> v \<noteq> 0 \<Longrightarrow> jmul (Fin v) (Fin 1) = Fin v"
  by (simp add: jmul_def fl_exact)

section \<open>The methods of an axis\<close>

lemma double_of_int: "\<bar>z\<bar> < 2 ^ 53 \<Longrightarrow> double (of_int z)"
  using double_intro [of z 0] by simp

lemma fl_numeral [simp]:
  "(numeral k :: int) < 2 ^ 53 \<Longrightarrow> fl (numeral k) = Fin (numeral k)"
  using fl_exact [OF double_of_int [of "numeral k"]] by simp

lemma fl_neg_numeral [simp]:
  "(numeral k :: int) < 2 ^ 53 \<Longrightarrow> fl (- numeral k) = Fin (- numeral k)"
  using fl_exact [OF double_of_int [of "- numeral k"]] by simp

lemma fl_one [simp]: "fl 1 = Fin 1"
  using fl_exact [OF double_of_int [of 1]] by simp

lemma fl_zero [simp]: "fl 0 = Fin 0"
  by (simp add: fl_def)

lemma jlt_NaN [simp]: "jlt a NaN = False" "jlt NaN a = False"
  by (simp_all add: jlt_def)

lemma jlt_irrefl [simp]: "jlt a a = False"
  by (simp add: jlt_def)

lemma update_mode_current [simp]: "current (update_mode d) = current d"
  and update_mode_fn [simp]: "fn (update_mode d) = fn d"
  by (simp_all add: update_mode_def Let_def)

lemma update_speed_current [simp]: "current (update_speed e d) = current d"
  and update_speed_fn [simp]: "fn (update_speed e d) = fn d"
  by (simp_all add: update_speed_def Let_def)

lemma update_next_current: "update_next e d = Some n \<Longrightarrow> current d \<noteq> NaN"
  by (auto simp: update_next_def jgt_def split: if_splits)

lemma update_mode_fields [simp]:
  "target (update_mode d) = target d" "currentSpeed (update_mode d) = currentSpeed d"
  "speed (update_mode d) = speed d" "speedMult (update_mode d) = speedMult d"
  "min_bound (update_mode d) = min_bound d" "max_bound (update_mode d) = max_bound d"
  by (simp_all add: update_mode_def Let_def)

lemma update_speed_fields [simp]:
  "mode (update_speed e d) = mode d" "target (update_speed e d) = target d"
  "speed (update_speed e d) = speed d" "speedMult (update_speed e d) = speedMult d"
  "min_bound (update_speed e d) = min_bound d" "max_bound (update_speed e d) = max_bound d"
  by (simp_all add: update_speed_def Let_def)

lemma update_fields:
  "mode (fst (update e d)) = mode (update_mode d)"
  "currentSpeed (fst (update e d)) = currentSpeed (update_speed e (update_mode d))"
  "target (fst (update e d)) = target d"
  "speed (fst (update e d)) = speed d" "speedMult (fst (update e d)) = speedMult d"
  "min_bound (fst (update e d)) = min_bound d" "max_bound (fst (update e d)) = max_bound d"
  "fn (fst (update e d)) = fn d"
  by (simp_all add: update_def Let_def split: option.splits)

lemma jsne_same: "\<not> jsne a b \<Longrightarrow> a \<noteq> NaN \<and> b \<noteq> NaN \<and> level a = level b \<and> rv a = rv b"
  by (auto simp: jsne_def jlt_def)

text \<open>
  C9: \<open>stop\<close> sets the mode to \<open>STOP\<close> and leaves every other field as it was:
  the current value, the target, the current speed, the speed multiplier, the bounds,
  the speed and the callback.
\<close>

theorem stop_only_mode:
  "mode (stop d) = STOP \<and> current (stop d) = current d \<and> target (stop d) = target d
   \<and> currentSpeed (stop d) = currentSpeed d \<and> speedMult (stop d) = speedMult d
   \<and> min_bound (stop d) = min_bound d \<and> max_bound (stop d) = max_bound d
   \<and> speed (stop d) = speed d \<and> fn (stop d) = fn d \<and> stop d = d\<lparr>mode := STOP\<rparr>"
  by (simp add: stop_def)

text \<open>
  C6: in rolling mode (\<open>INFINITE\<close>), \<open>step\<close> with a delta and a speed multiplier gives
  exactly the state that \<open>goto\<close> gives for the position \<open>current + delta\<close> and the same
  multiplier (also when the multiplier is left out).
\<close>

theorem step_rolling_is_goto_from_current:
  "mode d = INFINITE \<Longrightarrow> step delta sm d = goto (jadd (current d) delta) sm d"
  by (cases sm) (simp_all add: step_def goto_def default_arg_def)

theorem step_rolling_is_goto_from_current_witness:
  "mode (roll None None ((Dynamic_constructor False None None)\<lparr>current := Fin 5\<rparr>)) = INFINITE
   \<and> target (step (Fin 2) (Some (Fin 3))
        (roll None None ((Dynamic_constructor False None None)\<lparr>current := Fin 5\<rparr>))) = Fin 7
   \<and> step (Fin 2) (Some (Fin 3))
        (roll None None ((Dynamic_constructor False None None)\<lparr>current := Fin 5\<rparr>))
      = goto (Fin 7) (Some (Fin 3))
          (roll None None ((Dynamic_constructor False None None)\<lparr>current := Fin 5\<rparr>))"
  using step_rolling_is_goto_from_current
    [of "roll None None ((Dynamic_constructor False None None)\<lparr>current := Fin 5\<rparr>)"
        "Fin 2" "Some (Fin 3)"]
  by (simp add: roll_def Dynamic_constructor_def default_arg_def goto_def bound_def
      jmin_def jmax_def jadd_def jlt_def)

text \<open>
  C7: \<open>update\<close> returns true exactly when it has changed \<open>current\<close>, and the callback
  is called, once and with the new value of \<open>current\<close>, exactly when \<open>update\<close>
  returns true and a callback is installed.
\<close>

theorem update_changed_iff:
  "(fst (snd (update e d)) \<longleftrightarrow> current (fst (update e d)) \<noteq> current d)
   \<and> snd (snd (update e d)) =
       (if fst (snd (update e d)) \<and> fn d then [current (fst (update e d))] else [])"
proof (cases "update_next e (update_speed e (update_mode d))")
  case None
  then show ?thesis by (simp add: update_def Let_def)
next
  case (Some n)
  from update_next_current[OF Some] have "current d \<noteq> NaN" by simp
  with Some show ?thesis
    by (auto simp: update_def Let_def jsne_def split: if_splits)
qed

lemma update_current:
  "current (fst (update e d)) = current d
   \<or> (\<exists>n. update_next e (update_speed e (update_mode d)) = Some n
          \<and> current (fst (update e d)) = bound n (min_bound d) (max_bound d))"
  by (auto simp: update_def Let_def split: option.splits)

lemma bound_inside: "jle lo x \<Longrightarrow> jle x hi \<Longrightarrow> \<not> jsne x (bound x lo hi)"
proof -
  assume a: "jle lo x" "jle x hi"
  then have x: "x \<noteq> NaN" by (simp add: jle_iff)
  from bound_toward(1) [OF a x] x have "jle x (bound x lo hi)" "jle (bound x lo hi) x"
    by simp_all
  then show ?thesis by (auto simp: jsne_def jle_def)
qed

lemma bound_inside_eq: "jle lo x \<Longrightarrow> jle x hi \<Longrightarrow> \<not> is_zero x \<Longrightarrow> bound x lo hi = x"
proof -
  assume a: "jle lo x" "jle x hi" "\<not> is_zero x"
  then have n: "x \<noteq> NaN" "lo \<noteq> NaN" "hi \<noteq> NaN" by (simp_all add: jle_iff)
  have same: "y = x" if "y \<noteq> NaN" "level y = level x" "rv y = rv x" for y
    using that a(3) n(1) by (cases x; cases y) simp_all
  have 1: "jmin hi x = x"
    using a(2) n same [of hi] by (auto simp: jmin_def jle_def jlt_def)
  have 2: "jmax lo x = x"
    using a(1) n same [of lo] by (auto simp: jmax_def jle_def jlt_def)
  show ?thesis by (simp add: bound_def 1 2)
qed

text \<open>
  C3, as the spec states it, fails: \<open>setCurrent\<close> does not clamp and does not reset the
  current speed. With bounds \<open>[0,10]\<close> and a current speed of \<open>3\<close>, \<open>setCurrent(20)\<close>
  leaves \<open>current = 20\<close>, not the clamped \<open>10\<close>, and the current speed stays \<open>3\<close>.
\<close>

theorem setCurrent_clamp_counterexample:
  "jsne (current (fst (setCurrent (Fin 20)
      ((Dynamic_constructor False (Some (Fin 0)) (Some (Fin 10)))\<lparr>currentSpeed := Fin 3\<rparr>))))
     (bound (Fin 20) (Fin 0) (Fin 10))
   \<and> currentSpeed (fst (setCurrent (Fin 20)
      ((Dynamic_constructor False (Some (Fin 0)) (Some (Fin 10)))\<lparr>currentSpeed := Fin 3\<rparr>)))
     \<noteq> Fin 0"
  by (simp add: setCurrent_def Dynamic_constructor_def default_arg_def bound_def
      jmin_def jmax_def jsne_def jlt_def)

text \<open>
  C3, amended: \<open>setCurrent(v)\<close> stores \<open>v\<close> as it is in \<open>current\<close> and \<open>target\<close>, sets
  the mode to \<open>STOP\<close>, does not call the callback and leaves every other field,
  the current speed included, as it was; the stored value is the clamped one whenever
  \<open>v\<close> already lies within the bounds (equal as \<open>===\<close> compares them, and the very
  same number unless \<open>v\<close> is a zero, whose sign the clamp may change).
\<close>

theorem setCurrent_snaps_unclamped:
  "current (fst (setCurrent v d)) = v \<and> target (fst (setCurrent v d)) = v
   \<and> mode (fst (setCurrent v d)) = STOP \<and> snd (setCurrent v d) = []
   \<and> currentSpeed (fst (setCurrent v d)) = currentSpeed d
   \<and> speed (fst (setCurrent v d)) = speed d \<and> speedMult (fst (setCurrent v d)) = speedMult d
   \<and> min_bound (fst (setCurrent v d)) = min_bound d
   \<and> max_bound (fst (setCurrent v d)) = max_bound d
   \<and> fn (fst (setCurrent v d)) = fn d
   \<and> (jle (min_bound d) v \<and> jle v (max_bound d)
        \<longrightarrow> \<not> jsne (current (fst (setCurrent v d))) (bound v (min_bound d) (max_bound d))
          \<and> (\<not> is_zero v
               \<longrightarrow> current (fst (setCurrent v d)) = bound v (min_bound d) (max_bound d)))"
  by (simp add: setCurrent_def bound_inside bound_inside_eq)

theorem setCurrent_snaps_unclamped_witness:
  "jle (min_bound (Dynamic_constructor True (Some (Fin 0)) (Some (Fin 10)))) (Fin 5)
   \<and> jle (Fin 5) (max_bound (Dynamic_constructor True (Some (Fin 0)) (Some (Fin 10))))
   \<and> \<not> is_zero (Fin 5)
   \<and> \<not> jsne (current (fst (setCurrent (Fin 5)
              (Dynamic_constructor True (Some (Fin 0)) (Some (Fin 10))))))
         (bound (Fin 5) (min_bound (Dynamic_constructor True (Some (Fin 0)) (Some (Fin 10))))
            (max_bound (Dynamic_constructor True (Some (Fin 0)) (Some (Fin 10)))))
   \<and> current (fst (setCurrent (Fin 5) (Dynamic_constructor True (Some (Fin 0)) (Some (Fin 10)))))
       = bound (Fin 5) (min_bound (Dynamic_constructor True (Some (Fin 0)) (Some (Fin 10))))
            (max_bound (Dynamic_constructor True (Some (Fin 0)) (Some (Fin 10))))
   \<and> snd (setCurrent (Fin 5) (Dynamic_constructor True (Some (Fin 0)) (Some (Fin 10)))) = []"
proof -
  let ?d = "Dynamic_constructor True (Some (Fin 0)) (Some (Fin 10))"
  have h: "jle (min_bound ?d) (Fin 5)" "jle (Fin 5) (max_bound ?d)"
    by (simp_all add: Dynamic_constructor_def default_arg_def jle_def jlt_def)
  have z: "\<not> is_zero (Fin 5)" by simp
  from setCurrent_snaps_unclamped [of "Fin 5" ?d] h z show ?thesis by blast
qed

lemma rest_fixed:
  assumes "mode d = STOP" "is_zero (currentSpeed d)"
  shows "update el d = (d, False, [])"
proof -
  have m: "update_mode d = d"
    using assms by (simp add: update_mode_def)
  have z: "\<not> jlt (currentSpeed d) (Fin 0)" "\<not> jlt (Fin 0) (currentSpeed d)"
    using assms(2) by (cases "currentSpeed d"; simp add: jlt_def)+
  have sp: "update_speed el d = d"
    using assms z by (simp add: update_speed_def Let_def jgt_def)
  have "update_next el d = None"
    using assms by (simp add: update_next_def truthy_def)
  then show ?thesis
    by (simp add: update_def m sp)
qed

text \<open>
  C10, as the spec states it, fails in its last clause: no later call clamps the
  initial \<open>current\<close>. With bounds \<open>[1,2]\<close> the fresh \<open>current = 0\<close> is below \<open>min\<close>, and
  it still is after \<open>goto(2)\<close>, which does not write \<open>current\<close>, after \<open>setCurrent(0)\<close>,
  which has no bound, and after \<open>update(1000)\<close>, which leaves a controller at speed
  \<open>0\<close> as it is.
\<close>

theorem constructor_clamp_counterexample:
  "\<not> jle (min_bound (goto (Fin 2) None (Dynamic_constructor False (Some (Fin 1)) (Some (Fin 2)))))
         (current (goto (Fin 2) None (Dynamic_constructor False (Some (Fin 1)) (Some (Fin 2)))))
   \<and> \<not> jle (min_bound (fst (setCurrent (Fin 0)
           (Dynamic_constructor False (Some (Fin 1)) (Some (Fin 2))))))
         (current (fst (setCurrent (Fin 0)
           (Dynamic_constructor False (Some (Fin 1)) (Some (Fin 2))))))
   \<and> \<not> jle (min_bound (fst (update (Fin 1000)
           (Dynamic_constructor False (Some (Fin 1)) (Some (Fin 2))))))
         (current (fst (update (Fin 1000)
           (Dynamic_constructor False (Some (Fin 1)) (Some (Fin 2))))))"
proof -
  let ?d = "Dynamic_constructor False (Some (Fin 1)) (Some (Fin 2))"
  have u: "update (Fin 1000) ?d = (?d, False, [])"
    by (rule rest_fixed) (simp_all add: Dynamic_constructor_def)
  show ?thesis
    unfolding u
    by (simp add: goto_def setCurrent_def Dynamic_constructor_def default_arg_def jle_def jlt_def)
qed

text \<open>
  C10, amended: whatever bounds are passed, the constructor gives a controller with
  \<open>current = 0\<close>, \<open>target = 0\<close>, \<open>currentSpeed = 0\<close>, \<open>speed = 0\<close>, \<open>speedMult = 1\<close> and
  mode \<open>STOP\<close>, and keeps the bounds as given (infinite when left out); so
  \<open>current\<close> is inside the bounds exactly when \<open>0\<close> is, and with \<open>min = 1\<close> it is not.
  No call clamps the \<open>current\<close> it finds: \<open>goto\<close>, \<open>step\<close>, \<open>roll\<close> and \<open>stop\<close> leave
  \<open>current\<close> as it is, \<open>setCurrent\<close> stores its argument as it is, \<open>update\<close> leaves a
  fresh controller as it is, and in any state \<open>update\<close> either leaves \<open>current\<close> or
  replaces it by a clamped new position.
\<close>

theorem constructor_initial_state:
  "current (Dynamic_constructor f mn mx) = Fin 0
   \<and> target (Dynamic_constructor f mn mx) = Fin 0
   \<and> currentSpeed (Dynamic_constructor f mn mx) = Fin 0
   \<and> speed (Dynamic_constructor f mn mx) = Fin 0
   \<and> speedMult (Dynamic_constructor f mn mx) = Fin 1
   \<and> mode (Dynamic_constructor f mn mx) = STOP
   \<and> min_bound (Dynamic_constructor f mn mx) = default_arg NegInf mn
   \<and> max_bound (Dynamic_constructor f mn mx) = default_arg PosInf mx
   \<and> (jle (min_bound (Dynamic_constructor f mn mx)) (current (Dynamic_constructor f mn mx))
        = jle (default_arg NegInf mn) (Fin 0))
   \<and> (jle (current (Dynamic_constructor f mn mx)) (max_bound (Dynamic_constructor f mn mx))
        = jle (Fin 0) (default_arg PosInf mx))
   \<and> \<not> jle (min_bound (Dynamic_constructor f (Some (Fin 1)) (Some (Fin 2))))
            (current (Dynamic_constructor f (Some (Fin 1)) (Some (Fin 2))))
   \<and> current (goto position sm d) = current d
   \<and> current (step val sm d) = current d
   \<and> current (roll invert sm d) = current d
   \<and> current (stop d) = current d
   \<and> current (fst (setCurrent c d)) = c
   \<and> update elapsed (Dynamic_constructor f mn mx) = (Dynamic_constructor f mn mx, False, [])
   \<and> (current (fst (update elapsed d)) = current d
      \<or> (\<exists>n. current (fst (update elapsed d)) = bound n (min_bound d) (max_bound d)))"
proof -
  have u: "update elapsed (Dynamic_constructor f mn mx) = (Dynamic_constructor f mn mx, False, [])"
    by (rule rest_fixed) (simp_all add: Dynamic_constructor_def)
  have c: "current (fst (update elapsed d)) = current d
      \<or> (\<exists>n. current (fst (update elapsed d)) = bound n (min_bound d) (max_bound d))"
    using update_current [of elapsed d] by blast
  have fresh: "current (Dynamic_constructor f mn mx) = Fin 0
      \<and> target (Dynamic_constructor f mn mx) = Fin 0
      \<and> currentSpeed (Dynamic_constructor f mn mx) = Fin 0
      \<and> speed (Dynamic_constructor f mn mx) = Fin 0
      \<and> speedMult (Dynamic_constructor f mn mx) = Fin 1
      \<and> mode (Dynamic_constructor f mn mx) = STOP
      \<and> min_bound (Dynamic_constructor f mn mx) = default_arg NegInf mn
      \<and> max_bound (Dynamic_constructor f mn mx) = default_arg PosInf mx
      \<and> (jle (min_bound (Dynamic_constructor f mn mx)) (current (Dynamic_constructor f mn mx))
           = jle (default_arg NegInf mn) (Fin 0))
      \<and> (jle (current (Dynamic_constructor f mn mx)) (max_bound (Dynamic_constructor f mn mx))
           = jle (Fin 0) (default_arg PosInf mx))
      \<and> \<not> jle (min_bound (Dynamic_constructor f (Some (Fin 1)) (Some (Fin 2))))
               (current (Dynamic_constructor f (Some (Fin 1)) (Some (Fin 2))))"
    by (simp add: Dynamic_constructor_def default_arg_def jle_def jlt_def)
  have calls: "current (goto position sm d) = current d
      \<and> current (step val sm d) = current d
      \<and> current (roll invert sm d) = current d
      \<and> current (stop d) = current d
      \<and> current (fst (setCurrent c d)) = c"
    by (simp add: goto_def step_def roll_def stop_def setCurrent_def Let_def)
  from fresh calls u c show ?thesis by blast
qed

lemma fl_NegZero: "fl x = NegZero \<Longrightarrow> x < 0"
  by (auto simp: fl_rounded split: if_splits)

lemma jmul_self:
  assumes "c \<noteq> NaN"
  shows "jmul c c = Fin 0 \<or> (jmul c c \<noteq> NaN \<and> \<not> is_zero (jmul c c) \<and> \<not> negative (jmul c c))"
proof (cases "is_inf c \<or> is_zero c")
  case True
  then show ?thesis using assms by (cases c) (simp_all add: jmul_def inf_of_def zero_of_def)
next
  case False
  then have m: "jmul c c = fl (rv c * rv c)" using assms by (simp add: jmul_def)
  have "jle (Fin 0) (fl (rv c * rv c))" by (rule fl_nonneg) simp
  moreover have "fl (rv c * rv c) \<noteq> NegZero"
    using fl_NegZero [of "rv c * rv c"] by (auto simp: not_less [symmetric])
  ultimately show ?thesis
    unfolding m by (cases "fl (rv c * rv c)") (auto simp: jle_iff)
qed

lemma dstStop_zero_divisor:
  assumes "is_zero z" "q = Fin 0 \<or> (q \<noteq> NaN \<and> \<not> is_zero q \<and> \<not> negative q)"
  shows "jdiv q (jmul z (Fin 4)) =
     (if q = Fin 0 then NaN else if z = Fin 0 then PosInf else NegInf)"
proof -
  from assms(1) have z: "z = Fin 0 \<or> z = NegZero" by (cases z) simp_all
  then have z4: "jmul z (Fin 4) = z" by (auto simp: jmul_def zero_of_def)
  from assms(2) z show ?thesis
    unfolding z4 by (cases q) (auto simp: jdiv_def inf_of_def)
qed

lemma jabs_level: "jabs a = NaN \<or> jabs a = PosInf \<or> is_fin (jabs a)"
  by (cases a) simp_all

text \<open>
  C4, as the spec states it, fails: \<open>update\<close> has no special case for
  \<open>speed * speedMult = 0\<close>. A fresh controller has \<open>speed = 0\<close>; after \<open>goto(5)\<close> the
  braking distance is \<open>0 / 0\<close>, the comparison with it is false and the mode stays
  \<open>POSITION\<close>. With a current speed of \<open>2\<close> left over, the braking distance is
  infinite, the mode becomes \<open>STOP\<close>, and \<open>current\<close> still moves.
\<close>

theorem zero_speed_counterexample:
  "mode (fst (update (Fin 1000) (goto (Fin 5) None (Dynamic_constructor False None None)))) \<noteq> STOP
   \<and> jsne (current (fst (update (Fin 1000)
         ((goto (Fin 5) None (Dynamic_constructor False None None))\<lparr>currentSpeed := Fin 2\<rparr>))))
       (current ((goto (Fin 5) None (Dynamic_constructor False None None))\<lparr>currentSpeed := Fin 2\<rparr>))"
  by (simp add: update_def update_mode_def update_speed_def update_next_def goto_def
      Dynamic_constructor_def default_arg_def bound_def jmin_def jmax_def jgt_def jsub_def
      jadd_def jmul_def jdiv_def jlt_def zero_of_def inf_of_def truthy_def jsne_def Let_def)

text \<open>
  C4, amended: in \<open>POSITION\<close> mode with \<open>speed * speedMult\<close> a zero, \<open>update\<close>
  raises nothing, and the division by zero does take place. The mode becomes \<open>STOP\<close>
  exactly when the braking distance is \<open>+Infinity\<close> and the distance to the target is
  finite, that is when the square of the current speed as computed is greater than
  \<open>0\<close> (it is \<open>0\<close> also when it underflows, and NaN when the current speed is), the
  product \<open>speed * speedMult\<close> is \<open>+0\<close> and not \<open>-0\<close>, and the distance is finite;
  otherwise the braking distance is NaN or \<open>-Infinity\<close> and the mode stays
  \<open>POSITION\<close>. When the current speed is a zero the whole state is left as it is and
  \<open>update\<close> returns false.
\<close>

theorem zero_speed_update:
  assumes "mode d = POSITION" and "is_zero (jmul (speed d) (speedMult d))"
  shows "(mode (fst (update elapsed d)) = STOP \<longleftrightarrow>
            jlt (Fin 0) (jmul (currentSpeed d) (currentSpeed d))
            \<and> jmul (speed d) (speedMult d) = Fin 0
            \<and> is_fin (jabs (jsub (target d) (current d))))
    \<and> (mode (fst (update elapsed d)) = STOP \<or> mode (fst (update elapsed d)) = POSITION)
    \<and> (is_zero (currentSpeed d) \<longrightarrow> update elapsed d = (d, False, []))"
proof -
  let ?q = "jmul (currentSpeed d) (currentSpeed d)"
  let ?z = "jmul (speed d) (speedMult d)"
  let ?dist = "jabs (jsub (target d) (current d))"
  have lt: "jlt ?dist (jdiv ?q (jmul ?z (Fin 4))) \<longleftrightarrow>
      jlt (Fin 0) ?q \<and> ?z = Fin 0 \<and> is_fin ?dist"
  proof (cases "currentSpeed d = NaN")
    case True
    then have "?q = NaN" by (simp add: jmul_def)
    then show ?thesis by (simp add: jdiv_def)
  next
    case False
    note q = jmul_self [OF False]
    have dst: "jdiv ?q (jmul ?z (Fin 4)) =
        (if ?q = Fin 0 then NaN else if ?z = Fin 0 then PosInf else NegInf)"
      by (rule dstStop_zero_divisor [OF assms(2) q])
    have pos: "jlt (Fin 0) ?q \<longleftrightarrow> ?q \<noteq> Fin 0"
      using q by (cases ?q) (auto simp: jlt_def)
    show ?thesis
      unfolding dst pos using jabs_level [of "jsub (target d) (current d)"]
      by (cases ?dist) (auto simp: jlt_def)
  qed
  have m: "mode (update_mode d) =
      (if jlt (Fin 0) ?q \<and> ?z = Fin 0 \<and> is_fin ?dist then STOP else POSITION)"
    using assms(1) lt by (simp add: update_mode_def Let_def)
  have rest: "update elapsed d = (d, False, [])" if cz: "is_zero (currentSpeed d)"
  proof -
    have q0: "?q = Fin 0"
      using cz by (cases "currentSpeed d") (simp_all add: jmul_def zero_of_def)
    then have um: "update_mode d = d"
      using assms(1) lt by (simp add: update_mode_def Let_def)
    have z: "\<not> jlt (currentSpeed d) ?z" "\<not> jlt ?z (currentSpeed d)"
      using cz assms(2) by (cases "currentSpeed d"; cases ?z; simp add: jlt_def)+
    have sp: "update_speed elapsed d = d"
      using assms(1) z by (simp add: update_speed_def Let_def jgt_def)
    have "update_next elapsed d = None"
      using cz by (simp add: update_next_def truthy_def)
    then show ?thesis by (simp add: update_def um sp)
  qed
  show ?thesis
    using m rest by (simp add: update_fields)
qed

theorem zero_speed_update_witness:
  "mode ((goto (Fin 5) None (Dynamic_constructor False None None))\<lparr>currentSpeed := Fin 2\<rparr>) = POSITION
   \<and> is_zero (jmul (speed ((goto (Fin 5) None (Dynamic_constructor False None None))\<lparr>currentSpeed := Fin 2\<rparr>))
        (speedMult ((goto (Fin 5) None (Dynamic_constructor False None None))\<lparr>currentSpeed := Fin 2\<rparr>)))
   \<and> mode (fst (update (Fin 1000)
        ((goto (Fin 5) None (Dynamic_constructor False None None))\<lparr>currentSpeed := Fin 2\<rparr>))) = STOP
   \<and> is_zero (currentSpeed (goto (Fin 5) None (Dynamic_constructor False None None)))
   \<and> update (Fin 1000) (goto (Fin 5) None (Dynamic_constructor False None None))
       = (goto (Fin 5) None (Dynamic_constructor False None None), False, [])"
proof -
  let ?d = "goto (Fin 5) None (Dynamic_constructor False None None)"
  let ?d2 = "?d\<lparr>currentSpeed := Fin 2\<rparr>"
  note defs = goto_def Dynamic_constructor_def default_arg_def bound_def jmin_def jmax_def
    jmul_def jsub_def jadd_def jlt_def zero_of_def
  have h2: "mode ?d2 = POSITION" "is_zero (jmul (speed ?d2) (speedMult ?d2))"
    by (simp_all add: defs)
  have h: "mode ?d = POSITION" "is_zero (jmul (speed ?d) (speedMult ?d))"
    "is_zero (currentSpeed ?d)"
    by (simp_all add: defs)
  have c2: "jlt (Fin 0) (jmul (currentSpeed ?d2) (currentSpeed ?d2))
      \<and> jmul (speed ?d2) (speedMult ?d2) = Fin 0
      \<and> is_fin (jabs (jsub (target ?d2) (current ?d2)))"
    by (simp add: defs)
  from zero_speed_update [OF h2, of "Fin 1000"] c2
  have "mode (fst (update (Fin 1000) ?d2)) = STOP" by blast
  moreover from zero_speed_update [OF h(1,2), of "Fin 1000"] h(3)
  have "update (Fin 1000) ?d = (?d, False, [])" by blast
  ultimately show ?thesis using h2 h(3) by blast
qed

section \<open>The composite\<close>

lemma put_axis_keys [simp]: "map fst (put_axis name d dyn) = map fst dyn"
  by (induction dyn) (auto simp: put_axis_def)

lemma map_of_put_axis:
  "map_of (put_axis name d dyn) k =
     (if k = name then map_option (\<lambda>_. d) (map_of dyn name) else map_of dyn k)"
  by (induction dyn) (auto simp: put_axis_def)

lemma axis_call_keys [simp]: "map fst (fst (axis_call f name dyn)) = map fst dyn"
  by (simp add: axis_call_def split: option.splits)

lemma axis_call_frame: "k \<noteq> name \<Longrightarrow> map_of (fst (axis_call f name dyn)) k = map_of dyn k"
  by (simp add: axis_call_def map_of_put_axis split: option.splits)

lemma axis_call_error:
  "snd (axis_call f name dyn) = (if name \<in> fst ` set dyn then None else Some TypeError)"
proof (cases "map_of dyn name")
  case None
  moreover from None have "name \<notin> fst ` set dyn" by (simp add: map_of_eq_None_iff)
  ultimately show ?thesis by (simp add: axis_call_def)
next
  case (Some d)
  then have "(name, d) \<in> set dyn" by (rule map_of_SomeD)
  then have "name \<in> fst ` set dyn" by force
  with Some show ?thesis by (simp add: axis_call_def)
qed

lemma each_axis_call_keys:
  "map fst (fst (each ps (\<lambda>v name. axis_call (f v) name) dyn)) = map fst dyn"
proof (induction ps arbitrary: dyn)
  case Nil
  show ?case by simp
next
  case (Cons p ps)
  obtain k v where p: "p = (k, v)" by (cases p)
  obtain dyn' err where ac: "axis_call (f v) k dyn = (dyn', err)" by (cases "axis_call (f v) k dyn")
  have keys: "map fst dyn' = map fst dyn"
    using axis_call_keys [of "f v" k dyn] ac by simp
  show ?case
    using Cons.IH [of dyn'] keys by (cases err) (simp_all add: p ac)
qed

lemma each_axis_call_frame:
  "name \<notin> fst ` set ps \<Longrightarrow>
   map_of (fst (each ps (\<lambda>v name. axis_call (f v) name) dyn)) name = map_of dyn name"
proof (induction ps arbitrary: dyn)
  case Nil
  show ?case by simp
next
  case (Cons p ps)
  obtain k v where p: "p = (k, v)" by (cases p)
  obtain dyn' err where ac: "axis_call (f v) k dyn = (dyn', err)" by (cases "axis_call (f v) k dyn")
  from Cons.prems p have ne: "name \<noteq> k" and rest: "name \<notin> fst ` set ps" by auto
  have fr: "map_of dyn' name = map_of dyn name"
    using axis_call_frame [OF ne, of "f v" dyn] ac by simp
  show ?case
    using Cons.IH [OF rest, of dyn'] fr by (cases err) (simp_all add: p ac)
qed

lemma each_axis_call_error:
  "snd (each ps (\<lambda>v name. axis_call (f v) name) dyn) =
     (if fst ` set ps \<subseteq> fst ` set dyn then None else Some TypeError)"
proof (induction ps arbitrary: dyn)
  case Nil
  show ?case by simp
next
  case (Cons p ps)
  obtain k v where p: "p = (k, v)" by (cases p)
  obtain dyn' err where ac: "axis_call (f v) k dyn = (dyn', err)" by (cases "axis_call (f v) k dyn")
  have keys: "fst ` set dyn' = fst ` set dyn"
    using axis_call_keys [of "f v" k dyn] ac by (metis fst_conv list.set_map)
  have err: "err = (if k \<in> fst ` set dyn then None else Some TypeError)"
    using axis_call_error [of "f v" k dyn] ac by simp
  show ?case
    using Cons.IH [of dyn'] keys err by (simp add: p ac)
qed

lemma fold_put_axis:
  "distinct (map fst xs) \<Longrightarrow>
   fold (\<lambda>(k, d). put_axis k (g d)) xs ys =
     map (\<lambda>(k, v). case map_of xs k of None \<Rightarrow> (k, v) | Some d \<Rightarrow> (k, g d)) ys"
proof (induction xs arbitrary: ys)
  case Nil
  show ?case by simp
next
  case (Cons x xs)
  obtain k0 d0 where x: "x = (k0, d0)" by (cases x)
  from Cons.prems x have k0: "map_of xs k0 = None" and dist: "distinct (map fst xs)"
    by (auto simp: map_of_eq_None_iff)
  have "fold (\<lambda>(k, d). put_axis k (g d)) (x # xs) ys =
      map (\<lambda>(k, v). case map_of xs k of None \<Rightarrow> (k, v) | Some d \<Rightarrow> (k, g d))
        (put_axis k0 (g d0) ys)"
    by (simp add: x Cons.IH [OF dist])
  also have "\<dots> = map (\<lambda>(k, v). case map_of (x # xs) k of None \<Rightarrow> (k, v) | Some d \<Rightarrow> (k, g d)) ys"
    using k0 by (auto simp: x put_axis_def)
  finally show ?case .
qed

lemma map_self_distinct:
  "distinct (map fst xs) \<Longrightarrow>
   map (\<lambda>(k, v). case map_of xs k of None \<Rightarrow> (k, v) | Some d \<Rightarrow> (k, g d)) xs
     = map (\<lambda>(k, d). (k, g d)) xs"
  by (auto split: option.splits)

lemma assign_fresh: "k \<notin> fst ` set vs \<Longrightarrow> assign vs k v = vs @ [(k, v)]"
  by (induction vs) auto

lemma fold_assign:
  "distinct (map fst xs) \<Longrightarrow> fst ` set xs \<inter> fst ` set vs = {} \<Longrightarrow>
   fold (\<lambda>(k, d) vs. assign vs k (g d)) xs vs = vs @ map (\<lambda>(k, d). (k, g d)) xs"
proof (induction xs arbitrary: vs)
  case Nil
  show ?case by simp
next
  case (Cons x xs)
  obtain k0 d0 where x: "x = (k0, d0)" by (cases x)
  from Cons.prems x have fresh: "k0 \<notin> fst ` set vs" and dist: "distinct (map fst xs)"
    and disj: "fst ` set xs \<inter> fst ` set (vs @ [(k0, g d0)]) = {}"
    by auto
  show ?case
    by (simp add: x assign_fresh [OF fresh] Cons.IH [OF dist disj])
qed

lemma fold_bit_or:
  "to_int32 h = 0 \<or> to_int32 h = 1 \<Longrightarrow>
   fold (\<lambda>(k, d) h. bit_or h (c d)) xs h =
     (if xs = [] then h
      else JInt (if to_int32 h = 1 \<or> (\<exists>x \<in> set xs. c (snd x)) then 1 else 0))"
proof (induction xs arbitrary: h)
  case Nil
  show ?case by simp
next
  case (Cons x xs)
  obtain k0 d0 where x: "x = (k0, d0)" by (cases x)
  have next_ok: "to_int32 (bit_or h (c d0)) = 0 \<or> to_int32 (bit_or h (c d0)) = 1"
    using Cons.prems by (auto simp: bit_or_def)
  have h1: "bit_or h (c d0) = JInt (if to_int32 h = 1 \<or> c d0 then 1 else 0)"
    using Cons.prems by (auto simp: bit_or_def)
  have "fold (\<lambda>(k, d) h. bit_or h (c d)) (x # xs) h =
      (if xs = [] then bit_or h (c d0)
       else JInt (if to_int32 (bit_or h (c d0)) = 1 \<or> (\<exists>x \<in> set xs. c (snd x)) then 1 else 0))"
    by (simp add: x Cons.IH [OF next_ok])
  also have "\<dots> = JInt (if to_int32 h = 1 \<or> (\<exists>x \<in> set (x # xs). c (snd x)) then 1 else 0)"
    by (simp add: h1 x)
  finally show ?case by simp
qed

lemma update_axis_eq:
  "update_axis e d k (dyn, h, vals, calls) =
     ((put_axis k (fst (update e d)) dyn, bit_or h (fst (snd (update e d))),
       assign vals k (current (fst (update e d))),
       calls @ map (AxisCall k) (snd (snd (update e d)))), None)"
  by (simp add: update_axis_def split: prod.splits)

lemma each_update_axis:
  "each xs (update_axis e) (dyn, h, vals, calls) =
     ((fold (\<lambda>(k, d). put_axis k (fst (update e d))) xs dyn,
       fold (\<lambda>(k, d) h. bit_or h (fst (snd (update e d)))) xs h,
       fold (\<lambda>(k, d) vs. assign vs k (current (fst (update e d)))) xs vals,
       calls @ concat (map (\<lambda>(k, d). map (AxisCall k) (snd (snd (update e d)))) xs)), None)"
proof (induction xs arbitrary: dyn h vals calls)
  case Nil
  show ?case by simp
next
  case (Cons x xs)
  obtain k0 d0 where x: "x = (k0, d0)" by (cases x)
  show ?case
    by (simp add: x update_axis_eq Cons.IH)
qed

text \<open>
  C8: \<open>goto\<close>, \<open>step\<close>, \<open>roll\<close> and \<open>setCurrent\<close> of the composite leave every axis
  that the mapping does not name exactly as it was, and never change the set of axis
  names. A mapping that names an axis the composite does not have makes the call throw
  (a \<open>TypeError\<close>, from the method call on \<open>undefined\<close>); a mapping that names known
  axes only throws nothing.
\<close>

theorem fan_out_named_axes_only:
  "(name \<notin> fst ` set positions \<longrightarrow>
      map_of (dynamics (fst (MultiDynamic_goto positions sm m))) name = map_of (dynamics m) name)
   \<and> (name \<notin> fst ` set steps \<longrightarrow>
      map_of (dynamics (fst (MultiDynamic_step steps sm m))) name = map_of (dynamics m) name)
   \<and> (name \<notin> fst ` set rolls \<longrightarrow>
      map_of (dynamics (fst (MultiDynamic_roll rolls sm m))) name = map_of (dynamics m) name)
   \<and> (name \<notin> fst ` set currents \<longrightarrow>
      map_of (dynamics (fst (MultiDynamic_setCurrent currents m))) name = map_of (dynamics m) name)
   \<and> snd (MultiDynamic_goto positions sm m) =
       (if fst ` set positions \<subseteq> fst ` set (dynamics m) then None else Some TypeError)
   \<and> snd (MultiDynamic_step steps sm m) =
       (if fst ` set steps \<subseteq> fst ` set (dynamics m) then None else Some TypeError)
   \<and> snd (MultiDynamic_roll rolls sm m) =
       (if fst ` set rolls \<subseteq> fst ` set (dynamics m) then None else Some TypeError)
   \<and> snd (MultiDynamic_setCurrent currents m) =
       (if fst ` set currents \<subseteq> fst ` set (dynamics m) then None else Some TypeError)
   \<and> map fst (dynamics (fst (MultiDynamic_goto positions sm m))) = map fst (dynamics m)
   \<and> map fst (dynamics (fst (MultiDynamic_step steps sm m))) = map fst (dynamics m)
   \<and> map fst (dynamics (fst (MultiDynamic_roll rolls sm m))) = map fst (dynamics m)
   \<and> map fst (dynamics (fst (MultiDynamic_setCurrent currents m))) = map fst (dynamics m)"
  by (simp add: MultiDynamic_goto_def MultiDynamic_step_def MultiDynamic_roll_def
      MultiDynamic_setCurrent_def Let_def each_axis_call_frame each_axis_call_error
      each_axis_call_keys)

theorem fan_out_named_axes_only_witness:
  "''zoom'' \<notin> fst ` set [(''yaw'', Fin 3), (''roll'', Fin 1)]
   \<and> ''zoom'' \<notin> fst ` set [(''yaw'', True)]
   \<and> map_of (dynamics (fst (MultiDynamic_goto [(''yaw'', Fin 3), (''roll'', Fin 1)] None
        \<lparr>fn_multi = True, dynamics = [(''yaw'', Dynamic_constructor False None None),
                                      (''zoom'', Dynamic_constructor False None None)]\<rparr>))) ''zoom''
       = Some (Dynamic_constructor False None None)
   \<and> snd (MultiDynamic_goto [(''yaw'', Fin 3), (''roll'', Fin 1)] None
        \<lparr>fn_multi = True, dynamics = [(''yaw'', Dynamic_constructor False None None),
                                      (''zoom'', Dynamic_constructor False None None)]\<rparr>)
       = Some TypeError
   \<and> snd (MultiDynamic_roll [(''yaw'', True)] None
        \<lparr>fn_multi = True, dynamics = [(''yaw'', Dynamic_constructor False None None),
                                      (''zoom'', Dynamic_constructor False None None)]\<rparr>)
       = None"
  using fan_out_named_axes_only
    [of "''zoom''" "[(''yaw'', Fin 3), (''roll'', Fin 1)]" None
        "\<lparr>fn_multi = True, dynamics = [(''yaw'', Dynamic_constructor False None None),
                                       (''zoom'', Dynamic_constructor False None None)]\<rparr>"
        "[(''yaw'', Fin 3), (''roll'', Fin 1)]" "[(''yaw'', True)]" "[(''yaw'', Fin 3), (''roll'', Fin 1)]"]
  by simp

text \<open>
  C5, as the spec states it, fails in what \<open>update\<close> returns: the flag is accumulated
  with \<open>|=\<close>, so the result is a number. With two axes of which one moves, the result
  is \<open>1\<close> and not \<open>true\<close>; with one axis that does not move, it is \<open>0\<close> and not
  \<open>false\<close>.
\<close>

theorem composite_update_counterexample:
  "fst (snd (MultiDynamic_update (Fin 1000)
       \<lparr>fn_multi = True,
        dynamics = [(''yaw'', goto (Fin 13) None ((Dynamic_constructor True None None)\<lparr>speed := Fin 16\<rparr>)),
                    (''zoom'', Dynamic_constructor True None None)]\<rparr>)) \<noteq> JBool True
   \<and> fst (snd (MultiDynamic_update (Fin 1000)
       \<lparr>fn_multi = True, dynamics = [(''zoom'', Dynamic_constructor True None None)]\<rparr>))
      \<noteq> JBool False"
proof -
  let ?yaw = "goto (Fin 13) None ((Dynamic_constructor True None None)\<lparr>speed := Fin 16\<rparr>)"
  let ?zoom = "Dynamic_constructor True None None"
  have y: "update (Fin 1000) ?yaw = (?yaw\<lparr>currentSpeed := Fin 16, current := Fin 13\<rparr>, True, [Fin 13])"
    by (simp add: update_def update_mode_def update_speed_def update_next_def goto_def
        Dynamic_constructor_def default_arg_def bound_def jmin_def jmax_def jgt_def jsub_def
        jadd_def jmul_def jdiv_def jlt_def zero_of_def truthy_def jsne_def Let_def)
  have z: "update (Fin 1000) ?zoom = (?zoom, False, [])"
    by (rule rest_fixed) (simp_all add: Dynamic_constructor_def)
  show ?thesis
    by (simp add: MultiDynamic_update_def update_axis_def y z bit_or_def)
qed

text \<open>
  C5, amended: \<open>update\<close> of the composite calls \<open>update\<close> with the same elapsed time on
  every axis; its result is truthy exactly when at least one axis has changed (it is the
  number \<open>1\<close> or \<open>0\<close>, and the boolean \<open>false\<close> when there is no axis); when it is
  truthy and a callback is installed, the callback is called once, after the callbacks of
  the axes, with the current value of every axis, changed or not; otherwise the
  callback of the composite is not called.
\<close>

theorem composite_update:
  assumes "distinct (map fst (dynamics m))"
  shows "dynamics (fst (MultiDynamic_update e m)) =
           map (\<lambda>(k, d). (k, fst (update e d))) (dynamics m)
    \<and> fn_multi (fst (MultiDynamic_update e m)) = fn_multi m
    \<and> fst (snd (MultiDynamic_update e m)) =
        (if dynamics m = [] then JBool False
         else JInt (if \<exists>x \<in> set (dynamics m). fst (snd (update e (snd x))) then 1 else 0))
    \<and> flag_truthy (fst (snd (MultiDynamic_update e m))) =
        (\<exists>x \<in> set (dynamics m). fst (snd (update e (snd x))))
    \<and> snd (snd (MultiDynamic_update e m)) =
        concat (map (\<lambda>(k, d). map (AxisCall k) (snd (snd (update e d)))) (dynamics m))
        @ (if (\<exists>x \<in> set (dynamics m). fst (snd (update e (snd x)))) \<and> fn_multi m
           then [MultiCall (map (\<lambda>(k, d). (k, current (fst (update e d)))) (dynamics m))]
           else [])"
proof -
  let ?xs = "dynamics m"
  let ?any = "\<exists>x \<in> set ?xs. fst (snd (update e (snd x)))"
  have dyn: "fold (\<lambda>(k, d). put_axis k (fst (update e d))) ?xs ?xs =
      map (\<lambda>(k, d). (k, fst (update e d))) ?xs"
    by (simp only: fold_put_axis [OF assms] map_self_distinct [OF assms])
  have flag: "fold (\<lambda>(k, d) h. bit_or h (fst (snd (update e d)))) ?xs (JBool False) =
      (if ?xs = [] then JBool False else JInt (if ?any then 1 else 0))"
    by (simp add: fold_bit_or)
  have vals: "fold (\<lambda>(k, d) vs. assign vs k (current (fst (update e d)))) ?xs [] =
      map (\<lambda>(k, d). (k, current (fst (update e d)))) ?xs"
    using fold_assign [OF assms, of "[]"] by simp
  have truthy: "flag_truthy (if ?xs = [] then JBool False else JInt (if ?any then 1 else 0)) = ?any"
    by auto
  show ?thesis
    unfolding MultiDynamic_update_def each_update_axis fst_conv dyn flag vals
    using truthy by simp
qed

theorem composite_update_witness:
  "distinct (map fst [(''yaw'', goto (Fin 13) None ((Dynamic_constructor True None None)\<lparr>speed := Fin 16\<rparr>)),
                      (''zoom'', Dynamic_constructor True None None)])
   \<and> dynamics (fst (MultiDynamic_update (Fin 1000)
       \<lparr>fn_multi = True,
        dynamics = [(''yaw'', goto (Fin 13) None ((Dynamic_constructor True None None)\<lparr>speed := Fin 16\<rparr>)),
                    (''zoom'', Dynamic_constructor True None None)]\<rparr>))
     = [(''yaw'', (goto (Fin 13) None ((Dynamic_constructor True None None)\<lparr>speed := Fin 16\<rparr>))
                    \<lparr>currentSpeed := Fin 16, current := Fin 13\<rparr>),
        (''zoom'', Dynamic_constructor True None None)]
   \<and> fst (snd (MultiDynamic_update (Fin 1000)
       \<lparr>fn_multi = True,
        dynamics = [(''yaw'', goto (Fin 13) None ((Dynamic_constructor True None None)\<lparr>speed := Fin 16\<rparr>)),
                    (''zoom'', Dynamic_constructor True None None)]\<rparr>)) = JInt 1
   \<and> snd (snd (MultiDynamic_update (Fin 1000)
       \<lparr>fn_multi = True,
        dynamics = [(''yaw'', goto (Fin 13) None ((Dynamic_constructor True None None)\<lparr>speed := Fin 16\<rparr>)),
                    (''zoom'', Dynamic_constructor True None None)]\<rparr>))
     = [AxisCall ''yaw'' (Fin 13), MultiCall [(''yaw'', Fin 13), (''zoom'', Fin 0)]]"
proof -
  let ?yaw = "goto (Fin 13) None ((Dynamic_constructor True None None)\<lparr>speed := Fin 16\<rparr>)"
  let ?zoom = "Dynamic_constructor True None None"
  let ?m = "\<lparr>fn_multi = True, dynamics = [(''yaw'', ?yaw), (''zoom'', ?zoom)]\<rparr>"
  have d: "distinct (map fst (dynamics ?m))" by simp
  have y: "update (Fin 1000) ?yaw = (?yaw\<lparr>currentSpeed := Fin 16, current := Fin 13\<rparr>, True, [Fin 13])"
    by (simp add: update_def update_mode_def update_speed_def update_next_def goto_def
        Dynamic_constructor_def default_arg_def bound_def jmin_def jmax_def jgt_def jsub_def
        jadd_def jmul_def jdiv_def jlt_def zero_of_def truthy_def jsne_def Let_def)
  have z: "update (Fin 1000) ?zoom = (?zoom, False, [])"
    by (rule rest_fixed) (simp_all add: Dynamic_constructor_def)
  have c: "current ?zoom = Fin 0"
    by (simp add: Dynamic_constructor_def)
  show ?thesis
    using composite_update [OF d, of "Fin 1000"] by (simp add: y z c)
qed

section \<open>Bounds\<close>

lemma fl_huge:
  assumes "huge \<le> x"
  shows "fl x = PosInf"
proof -
  have h: "0 < huge" by (simp add: huge_def)
  with assms have x: "x \<noteq> 0" "0 < x" by simp_all
  have "1024 \<le> expo x"
  proof (rule ccontr)
    assume "\<not> 1024 \<le> expo x"
    then have "expo x + 1 \<le> 1024" by simp
    then have "(2::real) powi (expo x + 1) \<le> huge" unfolding huge_def by (simp only: p2_le_iff)
    with expo_bounds(2) [OF x(1)] assms x(2) show False by simp
  qed
  then have big: "- 1022 < expo x" by simp
  from \<open>1024 \<le> expo x\<close> have "huge \<le> 2 powi expo x"
    unfolding huge_def by (simp only: p2_le_iff)
  with rounded_abs_ge [OF x(1) big] have "huge \<le> \<bar>rounded x\<bar>" by linarith
  then show ?thesis using x by (simp add: fl_rounded)
qed

lemma inv_constructor:
  assumes "jle (default_arg NegInf mn) (Fin 0)" "jle (Fin 0) (default_arg PosInf mx)"
  shows "axis_inv (default_arg NegInf mn) (default_arg PosInf mx) (Dynamic_constructor f mn mx)"
  using assms jle_trans [OF assms]
  by (simp add: axis_inv_def in_bounds_def Dynamic_constructor_def)

lemma inv_goto:
  assumes "axis_inv lo hi d" "position \<noteq> NaN"
  shows "axis_inv lo hi (goto position sm d)"
  using assms bound_range [of lo hi position]
  by (simp add: axis_inv_def in_bounds_def goto_def)

lemma jadd_fin_not_NaN: "t \<noteq> NaN \<Longrightarrow> is_fin v \<Longrightarrow> jadd t v \<noteq> NaN"
  by (cases v) (auto simp: jadd_def)

lemma inv_step:
  assumes "axis_inv lo hi d" "is_fin val"
  shows "axis_inv lo hi (step val sm d)"
proof -
  let ?t = "if mode d = INFINITE then current d else target d"
  have "?t \<noteq> NaN"
    using assms(1) by (auto simp: axis_inv_def in_bounds_def jle_iff)
  then have "jadd ?t val \<noteq> NaN" using assms(2) by (rule jadd_fin_not_NaN)
  with assms(1) bound_range [of lo hi "jadd ?t val"] show ?thesis
    by (cases "mode d = INFINITE")
      (simp_all add: axis_inv_def in_bounds_def step_def goto_def Let_def)
qed

lemma inv_roll: "axis_inv lo hi d \<Longrightarrow> axis_inv lo hi (roll invert sm d)"
  by (simp add: axis_inv_def roll_def)

lemma inv_stop: "axis_inv lo hi d \<Longrightarrow> axis_inv lo hi (stop d)"
  by (simp add: axis_inv_def stop_def)

lemma inv_setCurrent:
  "axis_inv lo hi d \<Longrightarrow> jle lo c \<Longrightarrow> jle c hi \<Longrightarrow> axis_inv lo hi (fst (setCurrent c d))"
  by (simp add: axis_inv_def setCurrent_def in_bounds_def)

lemma inv_setSpeed: "axis_inv lo hi d \<Longrightarrow> axis_inv lo hi (d\<lparr>speed := v\<rparr>)"
  by (simp add: axis_inv_def)

lemma inv_update:
  assumes "axis_inv lo hi d"
    and "update_next elapsed (update_speed elapsed (update_mode d)) \<noteq> Some NaN"
  shows "axis_inv lo hi (fst (update elapsed d))"
proof -
  from assms(1) have b: "min_bound d = lo" "max_bound d = hi" "jle lo hi"
    by (simp_all add: axis_inv_def)
  have "in_bounds lo hi (current (fst (update elapsed d)))"
    using update_current [of elapsed d]
  proof
    assume "current (fst (update elapsed d)) = current d"
    with assms(1) show ?thesis by (simp add: axis_inv_def)
  next
    assume "\<exists>n. update_next elapsed (update_speed elapsed (update_mode d)) = Some n
        \<and> current (fst (update elapsed d)) = bound n (min_bound d) (max_bound d)"
    then obtain n where n: "update_next elapsed (update_speed elapsed (update_mode d)) = Some n"
      "current (fst (update elapsed d)) = bound n lo hi"
      using b by auto
    with assms(2) have "n \<noteq> NaN" by auto
    from bound_range [OF b(3) this] n(2) show ?thesis by (simp add: in_bounds_def)
  qed
  with assms(1) show ?thesis by (simp add: axis_inv_def update_fields)
qed

lemma inv_apply_op: "axis_inv lo hi d \<Longrightarrow> op_ok lo hi d x \<Longrightarrow> axis_inv lo hi (apply_op x d)"
  by (cases x)
    (simp_all add: inv_goto inv_step inv_roll inv_stop inv_setCurrent inv_setSpeed inv_update)

lemma inv_run: "axis_inv lo hi d \<Longrightarrow> run_ok lo hi ops d \<Longrightarrow> axis_inv lo hi (run ops d)"
  unfolding run_def by (induction ops arbitrary: d) (simp_all add: inv_apply_op)

lemma overflow_trace:
  assumes S: "double S" "0 < S" "huge \<le> S * 2"
  shows "current (run [SetSpeed (Fin S), Goto (Fin 5) (Some (Fin 2)), Update (Fin 1000),
            Goto (Fin 7) (Some (Fin 2)), Update (Fin 0)] (Dynamic_constructor False None None)) = NaN"
proof -
  have S0: "S \<noteq> 0" using S by simp
  have m1: "jmul (Fin S) (Fin 2) = PosInf"
    using S by (simp add: jmul_def fl_huge)
  have m2: "jmul (Fin 1) (Fin S) = Fin S"
    using S by (simp add: jmul_def fl_exact)
  have m3: "jmul PosInf (Fin 4) = PosInf" "jmul PosInf (Fin 2) = PosInf"
    "jmul PosInf (Fin 1000) = PosInf" "jmul PosInf PosInf = PosInf" "jmul PosInf (Fin 0) = NaN"
    "jmul (Fin 0) (Fin 0) = Fin 0"
    by (simp_all add: jmul_def inf_of_def zero_of_def)
  have m4: "jdiv (Fin 0) PosInf = Fin 0" "jdiv PosInf PosInf = NaN" "jdiv (Fin 1000) (Fin 1000) = Fin 1"
    "jdiv PosInf (Fin 1000) = PosInf" "jdiv NaN (Fin 1000) = NaN"
    by (simp_all add: jdiv_def inf_of_def zero_of_def)
  have m5: "jadd (Fin 0) PosInf = PosInf" "jadd (Fin 5) NaN = NaN" "jsub (Fin 5) (Fin 0) = Fin 5"
    "jsub (Fin 7) (Fin 5) = Fin 2"
    by (simp_all add: jadd_def jsub_def)
  let ?d1 = "\<lparr>fn = False, mode = POSITION, speed = Fin S, speedMult = Fin 2,
      currentSpeed = Fin 0, target = Fin 5, current = Fin 0, min_bound = NegInf, max_bound = PosInf\<rparr>"
  let ?d2 = "\<lparr>fn = False, mode = POSITION, speed = Fin S, speedMult = Fin 2,
      currentSpeed = PosInf, target = Fin 5, current = Fin 5, min_bound = NegInf, max_bound = PosInf\<rparr>"
  let ?d1' = "\<lparr>fn = False, mode = POSITION, speed = Fin S, speedMult = Fin 2,
      currentSpeed = PosInf, target = Fin 5, current = Fin 0, min_bound = NegInf, max_bound = PosInf\<rparr>"
  let ?d3 = "\<lparr>fn = False, mode = POSITION, speed = Fin S, speedMult = Fin 2,
      currentSpeed = PosInf, target = Fin 7, current = Fin 5, min_bound = NegInf, max_bound = PosInf\<rparr>"
  have d1: "goto (Fin 5) (Some (Fin 2)) ((Dynamic_constructor False None None)\<lparr>speed := Fin S\<rparr>) = ?d1"
    by (simp add: Dynamic_constructor_def default_arg_def goto_def bound_def jmin_def jmax_def jlt_def)
  have u1: "update_mode ?d1 = ?d1"
    by (simp add: update_mode_def Let_def m1 m3 m4 m5 jlt_def)
  have u2: "update_speed (Fin 1000) ?d1 = ?d1'"
    by (simp add: update_speed_def Let_def m1 m2 m3 m4 m5 jlt_def jgt_def jmin_def)
  have u3: "update_next (Fin 1000) ?d1' = Some (Fin 5)"
    by (simp add: update_next_def Let_def m3 m4 m5 jlt_def jgt_def jmin_def truthy_def)
  have d2: "fst (update (Fin 1000) ?d1) = ?d2"
    by (simp add: update_def Let_def u1 u2 u3 bound_def jmin_def jmax_def jlt_def jsne_def)
  have d3: "goto (Fin 7) (Some (Fin 2)) ?d2 = ?d3"
    by (simp add: goto_def default_arg_def bound_def jmin_def jmax_def jlt_def)
  have v1: "update_mode ?d3 = ?d3"
    by (simp add: update_mode_def Let_def m1 m3 m4 m5 jlt_def)
  have v2: "update_speed (Fin 0) ?d3 = ?d3"
    by (simp add: update_speed_def Let_def m1 m3 jlt_def jgt_def)
  have v3: "update_next (Fin 0) ?d3 = Some NaN"
    by (simp add: update_next_def Let_def m3 m4 m5 jlt_def jgt_def jmin_def truthy_def)
  have "current (fst (update (Fin 0) ?d3)) = NaN"
    by (simp add: update_def Let_def v1 v2 v3 bound_def jmin_def jmax_def jsne_def)
  then show ?thesis by (simp add: run_def d1 d2 d3)
qed

lemma double_p1023: "double (2 ^ 1023)"
proof -
  have "(2::real) ^ 1023 = of_int (2 ^ 52) * 2 powi 971"
    by (simp add: power_int_def flip: power_add)
  moreover have "double (of_int (2 ^ 52) * 2 powi 971)"
    by (rule double_intro) simp_all
  ultimately show ?thesis by (simp only:)
qed




section \<open>Seeking a target\<close>

lemma fin_rv: "is_fin a \<Longrightarrow> a \<noteq> NaN \<and> level a = 0"
  by (simp add: is_fin_level)

lemma jle_fin: "is_fin a \<Longrightarrow> is_fin b \<Longrightarrow> jle a b \<longleftrightarrow> rv a \<le> rv b"
  by (simp add: jle_iff is_fin_level)

lemma jlt_fin: "is_fin a \<Longrightarrow> is_fin b \<Longrightarrow> jlt a b \<longleftrightarrow> rv a < rv b"
  by (simp add: jlt_def is_fin_level)

lemma fin_same_value:
  assumes "is_fin a" "is_fin b" "rv a = rv b"
  shows "a = b \<or> a = NegZero \<and> b = Fin 0 \<or> a = Fin 0 \<and> b = NegZero"
  using assms by (cases a; cases b) simp_all

lemma grid:
  assumes "is_fin a" "is_double a"
  shows "\<exists>m::int. rv a = of_int m * 2 powi (- 1074)"
proof (cases "rv a = 0")
  case True
  then have "rv a = of_int 0 * 2 powi (- 1074)" by simp
  then show ?thesis by blast
next
  case False
  with assms obtain x where a: "a = Fin x" "double x" "x \<noteq> 0" by (cases a) simp_all
  have "- 1074 \<le> expo x - 52" by (simp add: expo_def)
  from double_multiple [OF a(2,3) this] a(1) show ?thesis by simp
qed

lemma ticks_grid:
  assumes "x = of_int m * 2 powi (- 1074)"
  shows "ticks x = nat \<bar>m\<bar>"
proof -
  have "(2::real) powi (- 1074) * 2 powi 1074 = 1" by (simp flip: power_int_add)
  then have "\<bar>x\<bar> * 2 powi 1074 = of_int \<bar>m\<bar>"
    by (simp add: assms abs_mult mult.assoc)
  then have "\<lfloor>\<bar>x\<bar> * 2 powi 1074\<rfloor> = \<bar>m\<bar>" by (simp only: floor_of_int)
  then show ?thesis by (simp only: ticks_def)
qed

lemma ticks_le: "\<bar>x\<bar> \<le> \<bar>y\<bar> \<Longrightarrow> ticks x \<le> ticks y"
proof -
  assume "\<bar>x\<bar> \<le> \<bar>y\<bar>"
  moreover have "(0::real) < 2 powi 1074" by simp
  ultimately have "\<bar>x\<bar> * 2 powi 1074 \<le> \<bar>y\<bar> * 2 powi 1074"
    by (simp only: mult_le_cancel_right_pos)
  then show ?thesis unfolding ticks_def by (intro nat_mono floor_mono)
qed

lemma ticks_less:
  assumes "x = of_int m * 2 powi (- 1074)" "y = of_int n * 2 powi (- 1074)" "\<bar>x\<bar> < \<bar>y\<bar>"
  shows "ticks x < ticks y"
proof -
  have p: "(0::real) < 2 powi (- 1074)" by simp
  have "\<bar>x\<bar> = of_int \<bar>m\<bar> * 2 powi (- 1074)" "\<bar>y\<bar> = of_int \<bar>n\<bar> * 2 powi (- 1074)"
    by (simp_all add: assms(1,2) abs_mult)
  with assms(3) have "(of_int \<bar>m\<bar> :: real) * 2 powi (- 1074) < of_int \<bar>n\<bar> * 2 powi (- 1074)"
    by simp
  with p have "(of_int \<bar>m\<bar> :: real) < of_int \<bar>n\<bar>"
    by (simp only: mult_less_cancel_right_pos)
  then have "\<bar>m\<bar> < \<bar>n\<bar>" by simp
  then show ?thesis by (simp add: ticks_grid [OF assms(1)] ticks_grid [OF assms(2)])
qed

lemma ticks_diff_less:
  assumes "is_fin a" "is_double a" "is_fin b" "is_double b" "is_fin c" "is_double c"
    and "\<bar>rv c - rv a\<bar> < \<bar>rv c - rv b\<bar>"
  shows "ticks (rv c - rv a) < ticks (rv c - rv b)"
proof -
  from grid [OF assms(1,2)] grid [OF assms(3,4)] grid [OF assms(5,6)] obtain m n k :: int where
    g: "rv a = of_int m * 2 powi (- 1074)" "rv b = of_int n * 2 powi (- 1074)"
    "rv c = of_int k * 2 powi (- 1074)" by blast
  have "rv c - rv a = of_int (k - m) * 2 powi (- 1074)"
    "rv c - rv b = of_int (k - n) * 2 powi (- 1074)"
    by (simp_all add: g left_diff_distrib)
  from ticks_less [OF this assms(7)] show ?thesis .
qed

text \<open>Numbers that are not negative and have their sign bit clear.\<close>

lemma fl_pos0: "0 \<le> x \<Longrightarrow> fl x = PosInf \<or> (\<exists>y. fl x = Fin y \<and> 0 \<le> y)"
  using rounded_nonneg [of x] by (auto simp: fl_rounded)

lemma jmul_pos0:
  assumes "a = PosInf \<or> (\<exists>x. a = Fin x \<and> 0 \<le> x)" "0 < c"
  shows "jmul a (Fin c) = PosInf \<or> (\<exists>y. jmul a (Fin c) = Fin y \<and> 0 \<le> y)"
  using assms(1)
proof
  assume "a = PosInf"
  with assms(2) show ?thesis by (simp add: jmul_def inf_of_def)
next
  assume "\<exists>x. a = Fin x \<and> 0 \<le> x"
  then obtain x where x: "a = Fin x" "0 \<le> x" by blast
  show ?thesis
  proof (cases "x = 0")
    case True
    with x assms(2) show ?thesis by (simp add: jmul_def zero_of_def)
  next
    case False
    with x assms(2) have "jmul a (Fin c) = fl (x * c)" by (simp add: jmul_def)
    with fl_pos0 [of "x * c"] x assms(2) show ?thesis by simp
  qed
qed

lemma jdiv_pos0:
  assumes "0 \<le> x" "0 < c"
  shows "jdiv (Fin x) (Fin c) = PosInf \<or> (\<exists>y. jdiv (Fin x) (Fin c) = Fin y \<and> 0 \<le> y)"
proof (cases "x = 0")
  case True
  with assms(2) show ?thesis by (simp add: jdiv_def zero_of_def)
next
  case False
  with assms(2) have "jdiv (Fin x) (Fin c) = fl (x / c)" by (simp add: jdiv_def)
  with fl_pos0 [of "x / c"] assms show ?thesis by simp
qed

lemma pos0_nonneg: "a = PosInf \<or> (\<exists>x. a = Fin x \<and> 0 \<le> x) \<Longrightarrow> jle (Fin 0) a"
  by (auto simp: nonneg_cases)

lemma ramp_pos0:
  assumes "0 < e" "0 < v"
  shows "jmul (jmul (jmul (jdiv (Fin e) (Fin 1000)) (Fin v)) (Fin 1)) (Fin 2) = PosInf
    \<or> (\<exists>y. jmul (jmul (jmul (jdiv (Fin e) (Fin 1000)) (Fin v)) (Fin 1)) (Fin 2) = Fin y \<and> 0 \<le> y)"
proof -
  have "jdiv (Fin e) (Fin 1000) = PosInf \<or> (\<exists>y. jdiv (Fin e) (Fin 1000) = Fin y \<and> 0 \<le> y)"
    by (rule jdiv_pos0) (use assms in simp_all)
  then have "jmul (jdiv (Fin e) (Fin 1000)) (Fin v) = PosInf
      \<or> (\<exists>y. jmul (jdiv (Fin e) (Fin 1000)) (Fin v) = Fin y \<and> 0 \<le> y)"
    by (rule jmul_pos0) (rule assms(2))
  then have "jmul (jmul (jdiv (Fin e) (Fin 1000)) (Fin v)) (Fin 1) = PosInf
      \<or> (\<exists>y. jmul (jmul (jdiv (Fin e) (Fin 1000)) (Fin v)) (Fin 1) = Fin y \<and> 0 \<le> y)"
    by (rule jmul_pos0) simp
  then show ?thesis by (rule jmul_pos0) simp
qed

lemma jadd_pos0:
  assumes "jle (Fin 0) c" "r = PosInf \<or> (\<exists>y. r = Fin y \<and> 0 \<le> y)"
  shows "jadd c r \<noteq> NegZero"
proof -
  from assms(1) consider "c = PosInf" | "c = NegZero" | x where "c = Fin x" "0 \<le> x"
    by (auto simp: nonneg_cases)
  then show ?thesis
  proof cases
    case 1
    with assms(2) show ?thesis by (auto simp: jadd_def)
  next
    case 2
    from assms(2) show ?thesis
    proof
      assume "r = PosInf"
      with 2 show ?thesis by (simp add: jadd_def)
    next
      assume "\<exists>y. r = Fin y \<and> 0 \<le> y"
      then obtain y where y: "r = Fin y" "0 \<le> y" by blast
      with 2 have "jadd c r = fl y" by (simp add: jadd_def)
      with fl_pos0 [OF y(2)] show ?thesis by auto
    qed
  next
    case 3
    from assms(2) show ?thesis
    proof
      assume "r = PosInf"
      with 3 show ?thesis by (simp add: jadd_def)
    next
      assume "\<exists>y. r = Fin y \<and> 0 \<le> y"
      then obtain y where y: "r = Fin y" "0 \<le> y" by blast
      with 3 have "jadd c r = fl (x + y)" by (simp add: jadd_def)
      with fl_pos0 [of "x + y"] 3 y show ?thesis by auto
    qed
  qed
qed

lemma jmin_not_NegZero: "\<not> is_zero a \<Longrightarrow> b \<noteq> NegZero \<Longrightarrow> jmin a b \<noteq> NegZero"
  using jmin_cases [of a b] by auto

lemma jmax_zero_not_NegZero: "jmax (Fin 0) b \<noteq> NegZero"
  by (auto simp: jmax_def jlt_def)

lemma jmax_pos_not_NegZero: "\<not> is_zero a \<Longrightarrow> b \<noteq> NegZero \<Longrightarrow> jmax a b \<noteq> NegZero"
  using jmax_cases [of a b] by auto

lemma approach_up:
  assumes c: "is_fin c" "is_double c" "jle (Fin 0) c"
    and R: "R = PosInf \<or> (\<exists>y. R = Fin y \<and> 0 \<le> y)" "is_double R"
    and T: "0 < T" "double T" "jlt c (Fin T)"
  shows "is_fin (jmin (Fin T) (jadd c R))" "is_double (jmin (Fin T) (jadd c R))"
    "rv c \<le> rv (jmin (Fin T) (jadd c R))" "rv (jmin (Fin T) (jadd c R)) \<le> T"
    "jmin (Fin T) (jadd c R) \<noteq> NegZero"
proof -
  let ?A = "jadd c R"
  have R0: "jle (Fin 0) R" by (rule pos0_nonneg [OF R(1)])
  have cA: "jle c ?A" by (rule jadd_ge [OF c(1,2) R0])
  then have A: "?A \<noteq> NaN" by (simp add: jle_iff)
  have 1: "jle c (jmin (Fin T) ?A)"
    by (rule jmin_le(3) [OF _ A jlt_imp_jle [OF T(3)] cA]) simp
  have 2: "jle (jmin (Fin T) ?A) (Fin T)"
    by (rule jmin_le(1) [OF _ A]) simp
  show f: "is_fin (jmin (Fin T) ?A)"
    by (rule jle_between_fin [OF 1 2 c(1)]) simp
  show "is_double (jmin (Fin T) ?A)"
    by (rule is_double_jmin) (simp_all add: T(2) is_double_jadd c(2) R(2))
  from 1 f c(1) show "rv c \<le> rv (jmin (Fin T) ?A)" by (simp add: jle_fin)
  from 2 f show "rv (jmin (Fin T) ?A) \<le> T" by (simp add: jle_fin)
  show "jmin (Fin T) ?A \<noteq> NegZero"
    by (rule jmin_not_NegZero) (use T(1) jadd_pos0 [OF c(3) R(1)] in simp_all)
qed

lemma approach_down:
  assumes c: "is_fin c" "is_double c"
    and R: "jle (Fin 0) R" "is_double R"
    and T: "0 \<le> T" "double T" "jlt (Fin T) c"
  shows "is_fin (jmax (Fin T) (jsub c R))" "is_double (jmax (Fin T) (jsub c R))"
    "T \<le> rv (jmax (Fin T) (jsub c R))" "rv (jmax (Fin T) (jsub c R)) \<le> rv c"
    "jmax (Fin T) (jsub c R) \<noteq> NegZero"
proof -
  let ?B = "jsub c R"
  have Bc: "jle ?B c" by (rule jsub_le [OF c(1,2) R(1)])
  then have B: "?B \<noteq> NaN" by (simp add: jle_iff)
  have 1: "jle (jmax (Fin T) ?B) c"
    by (rule jmax_ge(3) [OF _ B jlt_imp_jle [OF T(3)] Bc]) simp
  have 2: "jle (Fin T) (jmax (Fin T) ?B)"
    by (rule jmax_ge(1) [OF _ B]) simp
  show f: "is_fin (jmax (Fin T) ?B)"
    by (rule jle_between_fin [OF 2 1 _ c(1)]) simp
  show "is_double (jmax (Fin T) ?B)"
    by (rule is_double_jmax) (simp_all add: T(2) is_double_jsub c(2) R(2))
  from 2 f show 3: "T \<le> rv (jmax (Fin T) ?B)" by (simp add: jle_fin)
  from 1 f c(1) show "rv (jmax (Fin T) ?B) \<le> rv c" by (simp add: jle_fin)
  show "jmax (Fin T) ?B \<noteq> NegZero"
  proof (cases "T = 0")
    case True
    then show ?thesis by (simp add: jmax_zero_not_NegZero)
  next
    case False
    with T(1) 3 have "0 < rv (jmax (Fin T) ?B)" by simp
    then show ?thesis by auto
  qed
qed

lemma move_up:
  assumes c: "is_fin c" "is_double c"
    and t: "is_fin t" "is_double t" "jle lo t" "jle t hi" "is_double lo" "is_double hi"
    and i: "jle (Fin 0) i" "is_double i"
    and lt: "jlt c t"
  shows "is_fin (bound (jmin t (jadd c i)) lo hi)" "is_double (bound (jmin t (jadd c i)) lo hi)"
    "jle c (bound (jmin t (jadd c i)) lo hi)" "jle (bound (jmin t (jadd c i)) lo hi) t"
proof -
  let ?A = "jadd c i" and ?n = "jmin t (jadd c i)"
  have tn: "t \<noteq> NaN" using t(1) by (simp add: is_fin_level)
  have cA: "jle c ?A" by (rule jadd_ge [OF c i(1)])
  then have A: "?A \<noteq> NaN" by (simp add: jle_iff)
  have n: "?n \<noteq> NaN" using tn A by (simp add: jmin_NaN)
  have 1: "jle c ?n" by (rule jmin_le(3) [OF tn A jlt_imp_jle [OF lt] cA])
  have 2: "jle ?n t" by (rule jmin_le(1) [OF tn A])
  from bound_toward(1) [OF t(3,4) n 2]
  have 3: "jle ?n (bound ?n lo hi)" "jle (bound ?n lo hi) t" by simp_all
  show 4: "jle c (bound ?n lo hi)" by (rule jle_trans [OF 1 3(1)])
  show "jle (bound ?n lo hi) t" by (rule 3(2))
  show "is_fin (bound ?n lo hi)" by (rule jle_between_fin [OF 4 3(2) c(1) t(1)])
  show "is_double (bound ?n lo hi)"
    by (intro is_double_bound is_double_jmin is_double_jadd t c i)
qed

lemma move_down:
  assumes c: "is_fin c" "is_double c"
    and t: "is_fin t" "is_double t" "jle lo t" "jle t hi" "is_double lo" "is_double hi"
    and i: "jle (Fin 0) i" "is_double i"
    and lt: "jlt t c"
  shows "is_fin (bound (jmax t (jsub c i)) lo hi)" "is_double (bound (jmax t (jsub c i)) lo hi)"
    "jle t (bound (jmax t (jsub c i)) lo hi)" "jle (bound (jmax t (jsub c i)) lo hi) c"
proof -
  let ?B = "jsub c i" and ?n = "jmax t (jsub c i)"
  have tn: "t \<noteq> NaN" using t(1) by (simp add: is_fin_level)
  have Bc: "jle ?B c" by (rule jsub_le [OF c i(1)])
  then have B: "?B \<noteq> NaN" by (simp add: jle_iff)
  have n: "?n \<noteq> NaN" using tn B by (simp add: jmax_NaN)
  have 1: "jle ?n c" by (rule jmax_ge(3) [OF tn B jlt_imp_jle [OF lt] Bc])
  have 2: "jle t ?n" by (rule jmax_ge(1) [OF tn B])
  from bound_toward(2) [OF t(3,4) n 2]
  have 3: "jle t (bound ?n lo hi)" "jle (bound ?n lo hi) ?n" by simp_all
  show "jle t (bound ?n lo hi)" by (rule 3(1))
  show 4: "jle (bound ?n lo hi) c" by (rule jle_trans [OF 3(2) 1])
  show "is_fin (bound ?n lo hi)" by (rule jle_between_fin [OF 3(1) 4 t(1) c(1)])
  show "is_double (bound ?n lo hi)"
    by (intro is_double_bound is_double_jmax is_double_jsub t c i)
qed

lemma seeking_update_mode: "seeking v d \<Longrightarrow> seeking v (update_mode d)"
  by (simp add: seeking_def update_mode_def Let_def)

lemma update_mode_shape: "update_mode d = d\<lparr>mode := mode (update_mode d)\<rparr>"
  by (simp add: update_mode_def Let_def)

lemma update_mode_cases:
  "mode (update_mode d) = mode d \<or> mode d \<noteq> STOP \<and> mode (update_mode d) = STOP"
  by (auto simp: update_mode_def Let_def)

lemma update_speed_shape:
  "update_speed e d = d\<lparr>currentSpeed := currentSpeed (update_speed e d)\<rparr>"
  by (simp add: update_speed_def Let_def)

lemma update_shape:
  "fst (update e d) = d\<lparr>mode := mode (fst (update e d)),
      currentSpeed := currentSpeed (fst (update e d)), current := current (fst (update e d))\<rparr>"
proof -
  let ?d1 = "update_mode d" and ?d2 = "update_speed e (update_mode d)"
  have "fst (update e d) = ?d2\<lparr>current := current (fst (update e d))\<rparr>"
    by (simp add: update_def Let_def split: option.splits)
  moreover have "?d2 = ?d1\<lparr>currentSpeed := currentSpeed (fst (update e d))\<rparr>"
    using update_speed_shape [of e ?d1] by (simp add: update_fields)
  moreover have "?d1 = d\<lparr>mode := mode (fst (update e d))\<rparr>"
    using update_mode_shape [of d] by (simp add: update_fields)
  ultimately show ?thesis by simp
qed

lemma speed_step:
  assumes sk: "seeking v d" and e: "0 < e"
  shows "is_fin (currentSpeed (update_speed (Fin e) d))"
    "is_double (currentSpeed (update_speed (Fin e) d))"
    "jle (Fin 0) (currentSpeed (update_speed (Fin e) d))"
    "\<bar>(if mode d = STOP then 0 else v) - rv (currentSpeed (update_speed (Fin e) d))\<bar>
      \<le> \<bar>(if mode d = STOP then 0 else v) - rv (currentSpeed d)\<bar>"
    "currentSpeed (update_speed (Fin e) d) = currentSpeed d
      \<or> \<bar>(if mode d = STOP then 0 else v) - rv (currentSpeed (update_speed (Fin e) d))\<bar>
          < \<bar>(if mode d = STOP then 0 else v) - rv (currentSpeed d)\<bar>
      \<or> currentSpeed d = NegZero \<and> currentSpeed (update_speed (Fin e) d) \<noteq> NegZero"
    "currentSpeed (update_speed (Fin e) d) = NegZero \<Longrightarrow> currentSpeed d = NegZero"
proof -
  let ?c = "currentSpeed d"
  let ?R = "jmul (jmul (jmul (jdiv (Fin e) (Fin 1000)) (Fin v)) (Fin 1)) (Fin 2)"
  let ?T = "if mode d = STOP then (0::real) else v"
  from sk have v: "0 < v" "double v" "speed d = Fin v" "speedMult d = Fin 1"
    and c: "is_fin ?c" "is_double ?c" "jle (Fin 0) ?c"
    by (simp_all add: seeking_def)
  have m: "jmul (Fin v) (Fin 1) = Fin v" by (rule jmul_one) (use v in simp_all)
  have R: "?R = PosInf \<or> (\<exists>y. ?R = Fin y \<and> 0 \<le> y)" by (rule ramp_pos0 [OF e v(1)])
  have R0: "jle (Fin 0) ?R" by (rule pos0_nonneg [OF R])
  have Rd: "is_double ?R" by simp
  have T: "0 \<le> ?T" "double ?T" using v by simp_all
  have c0: "0 \<le> rv ?c" using c by (simp add: jle_fin)
  have eq: "update_speed (Fin e) d =
     (if jlt ?c (Fin ?T) then d\<lparr>currentSpeed := jmin (Fin ?T) (jadd ?c ?R)\<rparr>
      else if jlt (Fin ?T) ?c then d\<lparr>currentSpeed := jmax (Fin ?T) (jsub ?c ?R)\<rparr>
      else d)"
    by (simp add: update_speed_def Let_def v m jgt_def)
  let ?c2 = "currentSpeed (update_speed (Fin e) d)"
  have main: "is_fin ?c2 \<and> is_double ?c2 \<and> 0 \<le> rv ?c2
      \<and> \<bar>?T - rv ?c2\<bar> \<le> \<bar>?T - rv ?c\<bar>
      \<and> (?c2 = ?c \<or> \<bar>?T - rv ?c2\<bar> < \<bar>?T - rv ?c\<bar> \<or> ?c = NegZero \<and> ?c2 \<noteq> NegZero)
      \<and> (?c2 = NegZero \<longrightarrow> ?c = NegZero)"
  proof (cases "jlt ?c (Fin ?T)")
    case True
    then have Tpos: "0 < ?T" using c0 c(1) by (simp add: jlt_fin)
    note u = approach_up [OF c R Rd Tpos T(2) True]
    have c2: "?c2 = jmin (Fin ?T) (jadd ?c ?R)" using True by (simp add: eq)
    have "rv ?c2 = rv ?c \<Longrightarrow> ?c2 = ?c \<or> ?c = NegZero \<and> ?c2 \<noteq> NegZero"
      using fin_same_value [OF u(1) c(1)] u(5) unfolding c2 by auto
    moreover have "rv ?c \<le> rv ?c2" "rv ?c2 \<le> ?T" "is_fin ?c2" "is_double ?c2" "?c2 \<noteq> NegZero"
      using u unfolding c2 by simp_all
    ultimately show ?thesis using c0 by (cases "rv ?c2 = rv ?c") auto
  next
    case False
    show ?thesis
    proof (cases "jlt (Fin ?T) ?c")
      case True
      note u = approach_down [OF c(1,2) R0 Rd T True]
      have c2: "?c2 = jmax (Fin ?T) (jsub ?c ?R)" using True False by (simp add: eq)
      have cpos: "0 < rv ?c" using True T(1) c(1) by (simp add: jlt_fin)
      have "rv ?c2 = rv ?c \<Longrightarrow> ?c2 = ?c"
        using fin_same_value [OF u(1) c(1)] cpos unfolding c2 by auto
      moreover have "?T \<le> rv ?c2" "rv ?c2 \<le> rv ?c" "is_fin ?c2" "is_double ?c2" "?c2 \<noteq> NegZero"
        using u unfolding c2 by simp_all
      ultimately show ?thesis using T(1) by (cases "rv ?c2 = rv ?c") auto
    next
      case F2: False
      with False have "?c2 = ?c" by (simp add: eq)
      then show ?thesis using c c0 by simp
    qed
  qed
  from main show "is_fin ?c2" "is_double ?c2" by simp_all
  from main show "jle (Fin 0) ?c2" by (simp add: jle_fin)
  from main show "\<bar>?T - rv ?c2\<bar> \<le> \<bar>?T - rv ?c\<bar>" by simp
  from main show "?c2 = ?c \<or> \<bar>?T - rv ?c2\<bar> < \<bar>?T - rv ?c\<bar> \<or> ?c = NegZero \<and> ?c2 \<noteq> NegZero"
    by simp
  from main show "?c2 = NegZero \<Longrightarrow> ?c = NegZero" by simp
qed

lemma seeking_update_speed:
  assumes "seeking v d" "0 < e"
  shows "seeking v (update_speed (Fin e) d)"
  using assms(1) speed_step(1-3) [OF assms]
  by (simp add: seeking_def update_speed_current)

lemma position_step:
  assumes sk: "seeking v d" and e: "0 < e"
  shows "update_next (Fin e) d = None
    \<or> (\<exists>n. update_next (Fin e) d = Some n
          \<and> is_fin (bound n (min_bound d) (max_bound d))
          \<and> is_double (bound n (min_bound d) (max_bound d))
          \<and> (jlt (current d) (target d)
               \<and> jle (current d) (bound n (min_bound d) (max_bound d))
               \<and> jle (bound n (min_bound d) (max_bound d)) (target d)
             \<or> jlt (target d) (current d)
               \<and> jle (target d) (bound n (min_bound d) (max_bound d))
               \<and> jle (bound n (min_bound d) (max_bound d)) (current d)))"
proof -
  let ?i = "jdiv (jmul (currentSpeed d) (Fin e)) (Fin 1000)"
  from sk have c: "is_fin (current d)" "is_double (current d)"
    and t: "is_fin (target d)" "is_double (target d)" "jle (min_bound d) (target d)"
      "jle (target d) (max_bound d)" "is_double (min_bound d)" "is_double (max_bound d)"
    and s: "jle (Fin 0) (currentSpeed d)"
    by (simp_all add: seeking_def in_bounds_def)
  have i: "jle (Fin 0) ?i" "is_double ?i"
    by (intro jdiv_pos jmul_pos s e) simp_all
  show ?thesis
  proof (cases "jgt (current d) (target d) \<and> truthy (currentSpeed d)")
    case True
    then have lt: "jlt (target d) (current d)" by (simp add: jgt_def)
    from move_down [OF c t i lt] True lt show ?thesis
      by (simp add: update_next_def)
  next
    case False
    show ?thesis
    proof (cases "jlt (current d) (target d) \<and> truthy (currentSpeed d)")
      case True
      then have lt: "jlt (current d) (target d)" by simp
      from move_up [OF c t i lt] True False lt show ?thesis
        by (simp add: update_next_def)
    next
      case F2: False
      with False have "update_next (Fin e) d = None" by (auto simp: update_next_def)
      then show ?thesis ..
    qed
  qed
qed

lemma current_step:
  assumes sk: "seeking v d" and e: "0 < e"
  shows "is_fin (current (fst (update (Fin e) d)))"
    "is_double (current (fst (update (Fin e) d)))"
    "current (fst (update (Fin e) d)) = current d
     \<or> rv (current d) < rv (current (fst (update (Fin e) d)))
       \<and> rv (current (fst (update (Fin e) d))) \<le> rv (target d)
     \<or> rv (target d) \<le> rv (current (fst (update (Fin e) d)))
       \<and> rv (current (fst (update (Fin e) d))) < rv (current d)"
proof -
  let ?d2 = "update_speed (Fin e) (update_mode d)"
  let ?c3 = "current (fst (update (Fin e) d))"
  have sk2: "seeking v ?d2"
    by (rule seeking_update_speed [OF seeking_update_mode [OF sk] e])
  from sk have c: "is_fin (current d)" "is_double (current d)" and t: "is_fin (target d)"
    by (simp_all add: seeking_def)
  have main: "is_fin ?c3 \<and> is_double ?c3
     \<and> (?c3 = current d \<or> rv (current d) < rv ?c3 \<and> rv ?c3 \<le> rv (target d)
        \<or> rv (target d) \<le> rv ?c3 \<and> rv ?c3 < rv (current d))"
    using position_step [OF sk2 e]
  proof
    assume "update_next (Fin e) ?d2 = None"
    then have "?c3 = current d"
      by (simp add: update_def update_speed_current update_mode_current)
    with c show ?thesis by simp
  next
    assume "\<exists>n. update_next (Fin e) ?d2 = Some n
          \<and> is_fin (bound n (min_bound ?d2) (max_bound ?d2))
          \<and> is_double (bound n (min_bound ?d2) (max_bound ?d2))
          \<and> (jlt (current ?d2) (target ?d2)
               \<and> jle (current ?d2) (bound n (min_bound ?d2) (max_bound ?d2))
               \<and> jle (bound n (min_bound ?d2) (max_bound ?d2)) (target ?d2)
             \<or> jlt (target ?d2) (current ?d2)
               \<and> jle (target ?d2) (bound n (min_bound ?d2) (max_bound ?d2))
               \<and> jle (bound n (min_bound ?d2) (max_bound ?d2)) (current ?d2))"
    then obtain n where n: "update_next (Fin e) ?d2 = Some n"
      and b: "is_fin (bound n (min_bound d) (max_bound d))"
        "is_double (bound n (min_bound d) (max_bound d))"
      and dir: "jle (current d) (bound n (min_bound d) (max_bound d))
            \<and> jle (bound n (min_bound d) (max_bound d)) (target d)
          \<or> jle (target d) (bound n (min_bound d) (max_bound d))
            \<and> jle (bound n (min_bound d) (max_bound d)) (current d)"
      by (auto simp: update_speed_current update_mode_current)
    let ?b = "bound n (min_bound d) (max_bound d)"
    show ?thesis
    proof (cases "jsne ?b (current d)")
      case True
      then have "?c3 = ?b"
        by (simp add: update_def n Let_def update_speed_current update_mode_current)
      moreover from True b(1) c(1) have "rv ?b \<noteq> rv (current d)"
        by (auto simp: jsne_def jlt_fin)
      ultimately show ?thesis using b dir c(1) t by (auto simp: jle_fin)
    next
      case False
      then have "?c3 = current d"
        by (simp add: update_def n Let_def update_speed_current update_mode_current)
      with c show ?thesis by simp
    qed
  qed
  from main show "is_fin ?c3" "is_double ?c3" by simp_all
  from main show "?c3 = current d \<or> rv (current d) < rv ?c3 \<and> rv ?c3 \<le> rv (target d)
        \<or> rv (target d) \<le> rv ?c3 \<and> rv ?c3 < rv (current d)" by simp
qed

lemma seeking_update:
  assumes sk: "seeking v d" and e: "0 < e"
  shows "seeking v (fst (update (Fin e) d))"
proof -
  have sk2: "seeking v (update_speed (Fin e) (update_mode d))"
    by (rule seeking_update_speed [OF seeking_update_mode [OF sk] e])
  then show ?thesis
    using current_step(1,2) [OF sk e]
    by (simp add: seeking_def update_fields)
qed

lemma seeking_updates: "seeking v d \<Longrightarrow> 0 < e \<Longrightarrow> seeking v (updates k (Fin e) d)"
  by (induction k arbitrary: d) (simp_all add: seeking_update)

lemma updates_Suc: "updates (Suc k) e d = fst (update e (updates k e d))"
  by (induction k arbitrary: d) simp_all

lemma updates_target: "target (updates k e d) = target d"
  by (induction k arbitrary: d) (simp_all add: update_fields)

lemma slack_step:
  assumes sk: "seeking v d" and e: "0 < e"
  shows "fst (update (Fin e) d) = d
    \<or> mode d \<noteq> STOP \<and> mode (fst (update (Fin e) d)) = STOP
    \<or> mode (fst (update (Fin e) d)) = mode d \<and> slack v (fst (update (Fin e) d)) < slack v d"
proof (cases "mode (update_mode d) = mode d")
  case False
  with update_mode_cases [of d] show ?thesis by (simp add: update_fields)
next
  case True
  let ?d' = "fst (update (Fin e) d)"
  let ?T = "if mode d = STOP then (0::real) else v"
  have m1: "update_mode d = d" using update_mode_shape [of d] True by simp
  have md: "mode ?d' = mode d" using True by (simp add: update_fields)
  have cs: "currentSpeed ?d' = currentSpeed (update_speed (Fin e) d)"
    by (simp add: update_fields m1)
  note sp = speed_step [OF sk e, folded cs]
  note cu = current_step [OF sk e]
  from sk have f: "is_fin (current d)" "is_double (current d)" "is_fin (target d)"
    "is_double (target d)" "is_fin (currentSpeed d)" "is_double (currentSpeed d)"
    "double v"
    by (simp_all add: seeking_def)
  have Tf: "is_fin (Fin ?T)" "is_double (Fin ?T)" using f(7) by simp_all
  let ?g = "\<lambda>d. ticks (rv (target d) - rv (current d))"
  let ?h = "\<lambda>d. ticks (?T - rv (currentSpeed d))"
  let ?z = "\<lambda>d. if currentSpeed d = NegZero then 1 else (0::nat)"
  have sl: "slack v ?d' = ?g ?d' + ?h ?d' + ?z ?d'" "slack v d = ?g d + ?h d + ?z d"
    by (simp_all add: slack_def update_fields True)
  have tg: "target ?d' = target d" by (simp add: update_fields)
  have g_le: "?g ?d' \<le> ?g d"
    unfolding tg by (rule ticks_le) (use cu(3) in auto)
  have g_less: "?g ?d' < ?g d" if "current ?d' \<noteq> current d"
  proof -
    from that cu(3) have "\<bar>rv (target d) - rv (current ?d')\<bar> < \<bar>rv (target d) - rv (current d)\<bar>"
      by auto
    from ticks_diff_less [OF cu(1,2) f(1,2) f(3,4) this] show ?thesis by (simp add: tg)
  qed
  have h_le: "?h ?d' \<le> ?h d" by (rule ticks_le) (rule sp(4))
  have z_le: "?z ?d' \<le> ?z d" using sp(6) by auto
  have hz_less: "?h ?d' + ?z ?d' < ?h d + ?z d" if "currentSpeed ?d' \<noteq> currentSpeed d"
  proof -
    from that sp(5) consider "\<bar>?T - rv (currentSpeed ?d')\<bar> < \<bar>?T - rv (currentSpeed d)\<bar>"
      | "currentSpeed d = NegZero" "currentSpeed ?d' \<noteq> NegZero" by blast
    then show ?thesis
    proof cases
      case 1
      have "ticks (rv (Fin ?T) - rv (currentSpeed ?d')) < ticks (rv (Fin ?T) - rv (currentSpeed d))"
        by (rule ticks_diff_less [OF sp(1,2) f(5,6) Tf]) (use 1 in simp)
      then have "?h ?d' < ?h d" by simp
      with z_le show ?thesis by linarith
    next
      case 2
      then have "?z ?d' < ?z d" by simp
      with h_le show ?thesis by linarith
    qed
  qed
  show ?thesis
  proof (cases "?d' = d")
    case True
    then show ?thesis by simp
  next
    case False
    have "current ?d' \<noteq> current d \<or> currentSpeed ?d' \<noteq> currentSpeed d"
    proof (rule ccontr)
      assume "\<not> (current ?d' \<noteq> current d \<or> currentSpeed ?d' \<noteq> currentSpeed d)"
      then have "current ?d' = current d" "currentSpeed ?d' = currentSpeed d" by simp_all
      with update_shape [of "Fin e" d] md have "?d' = d" by simp
      with False show False ..
    qed
    then have "slack v ?d' < slack v d"
    proof
      assume "current ?d' \<noteq> current d"
      from g_less [OF this] h_le z_le show ?thesis unfolding sl by linarith
    next
      assume "currentSpeed ?d' \<noteq> currentSpeed d"
      from hz_less [OF this] g_le show ?thesis unfolding sl by linarith
    qed
    with md show ?thesis by simp
  qed
qed

lemma fixed_updates:
  "fst (update e d) = d \<Longrightarrow> updates k e d = d"
  by (induction k) simp_all

lemma updates_add: "updates (n + k) e d = updates k e (updates n e d)"
  by (induction n arbitrary: d) simp_all

lemma settles_stop:
  assumes "seeking v d" "0 < e" "mode d = STOP"
  shows "\<exists>n. fst (update (Fin e) (updates n (Fin e) d)) = updates n (Fin e) d"
  using assms
proof (induction "slack v d" arbitrary: d rule: less_induct)
  case less
  from slack_step [OF less.prems(1,2)] less.prems(3)
  consider "fst (update (Fin e) d) = d"
    | "mode (fst (update (Fin e) d)) = STOP" "slack v (fst (update (Fin e) d)) < slack v d"
    by auto
  then show ?case
  proof cases
    case 1
    then have "fst (update (Fin e) (updates 0 (Fin e) d)) = updates 0 (Fin e) d" by simp
    then show ?thesis by blast
  next
    case 2
    from less.hyps [OF 2(2) seeking_update [OF less.prems(1,2)] less.prems(2) 2(1)]
    obtain n where "fst (update (Fin e) (updates n (Fin e) (fst (update (Fin e) d))))
        = updates n (Fin e) (fst (update (Fin e) d))" ..
    then have "fst (update (Fin e) (updates (Suc n) (Fin e) d)) = updates (Suc n) (Fin e) d"
      by simp
    then show ?thesis by blast
  qed
qed

lemma settles:
  assumes "seeking v d" "0 < e"
  shows "\<exists>n. fst (update (Fin e) (updates n (Fin e) d)) = updates n (Fin e) d"
  using assms
proof (induction "slack v d" arbitrary: d rule: less_induct)
  case less
  let ?d' = "fst (update (Fin e) d)"
  have sk': "seeking v ?d'" by (rule seeking_update [OF less.prems])
  from slack_step [OF less.prems]
  consider "?d' = d" | "mode ?d' = STOP" | "slack v ?d' < slack v d"
    by auto
  then have "\<exists>n. fst (update (Fin e) (updates n (Fin e) ?d')) = updates n (Fin e) ?d'
      \<or> ?d' = d"
  proof cases
    case 1
    then show ?thesis by simp
  next
    case 2
    from settles_stop [OF sk' less.prems(2) 2] show ?thesis by blast
  next
    case 3
    from less.hyps [OF 3 sk' less.prems(2)] show ?thesis by blast
  qed
  then obtain n where "fst (update (Fin e) (updates n (Fin e) ?d')) = updates n (Fin e) ?d'
      \<or> ?d' = d" ..
  then show ?case
  proof
    assume "fst (update (Fin e) (updates n (Fin e) ?d')) = updates n (Fin e) ?d'"
    then have "fst (update (Fin e) (updates (Suc n) (Fin e) d)) = updates (Suc n) (Fin e) d"
      by simp
    then show ?thesis by blast
  next
    assume "?d' = d"
    then have "fst (update (Fin e) (updates 0 (Fin e) d)) = updates 0 (Fin e) d" by simp
    then show ?thesis by blast
  qed
qed

lemma round_even_tie: "even z \<Longrightarrow> round_even (of_int z + 1 / 2) = z"
proof -
  assume z: "even z"
  have "\<lfloor>of_int z + (1 / 2 :: real)\<rfloor> = z" by (rule floor_unique) simp_all
  with z show ?thesis by (simp add: round_even_def Let_def)
qed

lemma expo_eq:
  assumes "2 powi k \<le> \<bar>x\<bar>" "\<bar>x\<bar> < 2 powi (k + 1)" "- 1022 \<le> k"
  shows "expo x = k"
proof -
  have "0 < (2::real) powi k" by simp
  with assms(1) have "0 < \<bar>x\<bar>" by linarith
  then have x: "x \<noteq> 0" by simp
  from floor_log2_iff [OF x, of k] assms(1,2) have "\<lfloor>log 2 \<bar>x\<bar>\<rfloor> = k" by simp
  with assms(3) show ?thesis by (simp add: expo_def)
qed

lemma fl_tie: "fl (2 ^ 55 + 4) = Fin (2 ^ 55)"
proof -
  define x :: real where "x = 2 ^ 55 + 4"
  define y :: real where "y = 2 ^ 55"
  have e: "expo x = 55" by (rule expo_eq) (simp_all add: x_def)
  have q: "x / 2 powi (55 - 52) = of_int (2 ^ 52) + 1 / 2" by (simp add: x_def)
  have re: "round_even (of_int (2 ^ 52) + 1 / 2) = 2 ^ 52" by (rule round_even_tie) simp
  have "rounded x = of_int (2 ^ 52) * 2 powi (55 - 52)" unfolding rounded_def e q re ..
  also have "\<dots> = y" by (simp add: y_def)
  finally have r: "rounded x = y" .
  have x: "x \<noteq> 0" "0 < x" by (simp_all add: x_def)
  have "y = 2 powi 55" by (simp add: y_def)
  moreover have "(2::real) powi 55 < huge" unfolding huge_def by (simp only: p2_less_iff)
  ultimately have y: "\<not> huge \<le> \<bar>y\<bar>" "y \<noteq> 0" by simp_all
  have "fl x = Fin y" using x y by (simp add: fl_rounded r)
  then show ?thesis by (simp only: x_def y_def)
qed

lemma double_p55: "double (2 ^ 55)" "double (2 ^ 55 + 8)"
proof -
  have "(2::real) ^ 55 = of_int (2 ^ 52) * 2 powi 3" by simp
  moreover have "double (of_int (2 ^ 52) * 2 powi 3)" by (rule double_intro) simp_all
  ultimately show "double (2 ^ 55)" by (simp only:)
  have "(2::real) ^ 55 + 8 = of_int (2 ^ 52 + 1) * 2 powi 3" by simp
  moreover have "double (of_int (2 ^ 52 + 1) * 2 powi 3)" by (rule double_intro) simp_all
  ultimately show "double (2 ^ 55 + 8)" by (simp only:)
qed

lemma stuck_trace:
  assumes c: "double c" "0 < c" "fl (c + 4) = Fin c"
  shows "fst (update (Fin 1000) (goto (Fin (c + 8)) None
            (fst (setCurrent (Fin c) ((Dynamic_constructor False None None)\<lparr>speed := Fin 4\<rparr>)))))
     = \<lparr>fn = False, mode = POSITION, speed = Fin 4, speedMult = Fin 1, currentSpeed = Fin 4,
        target = Fin (c + 8), current = Fin c, min_bound = NegInf, max_bound = PosInf\<rparr>"
    and "update (Fin 1000)
        \<lparr>fn = False, mode = POSITION, speed = Fin 4, speedMult = Fin 1, currentSpeed = Fin 4,
         target = Fin (c + 8), current = Fin c, min_bound = NegInf, max_bound = PosInf\<rparr>
     = (\<lparr>fn = False, mode = POSITION, speed = Fin 4, speedMult = Fin 1, currentSpeed = Fin 4,
        target = Fin (c + 8), current = Fin c, min_bound = NegInf, max_bound = PosInf\<rparr>, False, [])"
proof -
  let ?d0 = "\<lparr>fn = False, mode = POSITION, speed = Fin 4, speedMult = Fin 1, currentSpeed = Fin 0,
        target = Fin (c + 8), current = Fin c, min_bound = NegInf, max_bound = PosInf\<rparr>"
  let ?d1 = "\<lparr>fn = False, mode = POSITION, speed = Fin 4, speedMult = Fin 1, currentSpeed = Fin 4,
        target = Fin (c + 8), current = Fin c, min_bound = NegInf, max_bound = PosInf\<rparr>"
  have a: "jsub (Fin (c + 8)) (Fin c) = Fin 8" "jadd (Fin c) (Fin 4) = Fin c"
    using c by (simp_all add: jsub_def jadd_def)
  have m: "jmul (Fin 4) (Fin 1) = Fin 4" "jmul (Fin 4) (Fin 4) = Fin 16"
    "jmul (Fin 0) (Fin 0) = Fin 0" "jmul (Fin 4) (Fin 1000) = Fin 4000"
    "jmul (Fin 1) (Fin 4) = Fin 4" "jmul (Fin 4) (Fin 2) = Fin 8"
    by (simp_all add: jmul_def zero_of_def)
  have q: "jdiv (Fin 0) (Fin 16) = Fin 0" "jdiv (Fin 16) (Fin 16) = Fin 1"
    "jdiv (Fin 1000) (Fin 1000) = Fin 1" "jdiv (Fin 4000) (Fin 1000) = Fin 4"
    by (simp_all add: jdiv_def zero_of_def)
  have p: "jadd (Fin 0) (Fin 8) = Fin 8" by (simp add: jadd_def)
  have g: "goto (Fin (c + 8)) None
      (fst (setCurrent (Fin c) ((Dynamic_constructor False None None)\<lparr>speed := Fin 4\<rparr>))) = ?d0"
    using c(2)
    by (simp add: Dynamic_constructor_def default_arg_def setCurrent_def goto_def bound_def
        jmin_def jmax_def jlt_def)
  have u1: "update_mode ?d0 = ?d0"
    by (simp add: update_mode_def Let_def m q a jlt_def)
  have u2: "update_speed (Fin 1000) ?d0 = ?d1"
    by (simp add: update_speed_def Let_def m q p jlt_def jgt_def jmin_def)
  have u3: "update_next (Fin 1000) ?d1 = Some (Fin c)"
    by (simp add: update_next_def m q a jlt_def jgt_def jmin_def truthy_def)
  have b: "bound (Fin c) NegInf PosInf = Fin c"
    by (simp add: bound_def jmin_def jmax_def jlt_def)
  show "fst (update (Fin 1000) (goto (Fin (c + 8)) None
            (fst (setCurrent (Fin c) ((Dynamic_constructor False None None)\<lparr>speed := Fin 4\<rparr>)))))
     = ?d1"
    by (simp add: g update_def u1 u2 u3 b jsne_def)
  have v1: "update_mode ?d1 = ?d1"
    by (simp add: update_mode_def Let_def m q a jlt_def)
  have v2: "update_speed (Fin 1000) ?d1 = ?d1"
    by (simp add: update_speed_def Let_def m q jlt_def jgt_def)
  show "update (Fin 1000) ?d1 = (?d1, False, [])"
    by (simp add: update_def v1 v2 u3 b jsne_def)
qed

lemma short_trace:
  "updates 2 (Fin 1000) (goto (Fin 19) None ((Dynamic_constructor False None None)\<lparr>speed := Fin 16\<rparr>))
     = \<lparr>fn = False, mode = STOP, speed = Fin 16, speedMult = Fin 1, currentSpeed = Fin 0,
        target = Fin 19, current = Fin 16, min_bound = NegInf, max_bound = PosInf\<rparr>"
proof -
  let ?r = "\<lambda>m s c. \<lparr>fn = False, mode = m, speed = Fin 16, speedMult = Fin 1, currentSpeed = Fin s,
        target = Fin 19, current = Fin c, min_bound = NegInf, max_bound = PosInf\<rparr>"
  note defs = update_def update_mode_def update_speed_def update_next_def Let_def
    jmul_def jdiv_def jadd_def jsub_def jlt_def jgt_def jmin_def jmax_def bound_def jsne_def
    truthy_def zero_of_def inf_of_def
  have g: "goto (Fin 19) None ((Dynamic_constructor False None None)\<lparr>speed := Fin 16\<rparr>)
      = ?r POSITION 0 0"
    by (simp add: Dynamic_constructor_def default_arg_def goto_def bound_def
        jmin_def jmax_def jlt_def)
  have u1: "fst (update (Fin 1000) (?r POSITION 0 0)) = ?r POSITION 16 16"
    by (simp add: defs)
  have u2: "fst (update (Fin 1000) (?r POSITION 16 16)) = ?r STOP 0 16"
    by (simp add: defs)
  have "updates 2 (Fin 1000) (?r POSITION 0 0)
      = fst (update (Fin 1000) (fst (update (Fin 1000) (?r POSITION 0 0))))"
    by (simp add: eval_nat_numeral)
  then show ?thesis by (simp only: g u1 u2)
qed

lemma fl_quarter: "fl (1 / 4) = Fin (1 / 4)"
proof -
  have "(1 / 4 :: real) = of_int 1 * 2 powi (- 2)" by (simp add: power_int_minus)
  moreover have "double (of_int 1 * 2 powi (- 2))" by (rule double_intro) simp_all
  ultimately have "double (1 / 4)" by (simp only:)
  then show ?thesis by (rule fl_exact) simp
qed

lemma rest_short_trace:
  "updates 5 (Fin 250) (goto (Fin 13) None ((Dynamic_constructor False None None)\<lparr>speed := Fin 16\<rparr>))
     = \<lparr>fn = False, mode = STOP, speed = Fin 16, speedMult = Fin 1, currentSpeed = Fin 0,
        target = Fin 13, current = Fin 12, min_bound = NegInf, max_bound = PosInf\<rparr>"
proof -
  let ?r = "\<lambda>m s c. \<lparr>fn = False, mode = m, speed = Fin 16, speedMult = Fin 1, currentSpeed = Fin s,
        target = Fin 13, current = Fin c, min_bound = NegInf, max_bound = PosInf\<rparr>"
  note defs = update_def update_mode_def update_speed_def update_next_def Let_def
    jmul_def jdiv_def jadd_def jsub_def jlt_def jgt_def jmin_def jmax_def bound_def jsne_def
    truthy_def zero_of_def inf_of_def fl_quarter
  have g: "goto (Fin 13) None ((Dynamic_constructor False None None)\<lparr>speed := Fin 16\<rparr>)
      = ?r POSITION 0 0"
    by (simp add: Dynamic_constructor_def default_arg_def goto_def bound_def
        jmin_def jmax_def jlt_def)
  have u1: "fst (update (Fin 250) (?r POSITION 0 0)) = ?r POSITION 8 2"
    by (simp add: defs)
  have u2: "fst (update (Fin 250) (?r POSITION 8 2)) = ?r POSITION 16 6"
    by (simp add: defs)
  have u3: "fst (update (Fin 250) (?r POSITION 16 6)) = ?r POSITION 16 10"
    by (simp add: defs)
  have u4: "fst (update (Fin 250) (?r POSITION 16 10)) = ?r STOP 8 12"
    by (simp add: defs)
  have u5: "fst (update (Fin 250) (?r STOP 8 12)) = ?r STOP 0 12"
    by (simp add: defs)
  let ?d = "?r POSITION 0 0"
  have "updates 5 (Fin 250) ?d = fst (update (Fin 250) (fst (update (Fin 250)
      (fst (update (Fin 250) (fst (update (Fin 250) (fst (update (Fin 250) ?d)))))))))"
    by (simp add: eval_nat_numeral)
  then show ?thesis by (simp only: g u1 u2 u3 u4 u5)
qed

lemma jsne_sym: "jsne a b \<longleftrightarrow> jsne b a"
  by (auto simp: jsne_def)

lemma seeking_goto:
  assumes "speed d0 = Fin v" "0 < v" "double v"
    and "is_fin (current d0)" "is_double (current d0)"
    and "is_fin (currentSpeed d0)" "is_double (currentSpeed d0)" "jle (Fin 0) (currentSpeed d0)"
    and "is_double (min_bound d0)" "is_double (max_bound d0)"
    and "double t" "jle (min_bound d0) (Fin t)" "jle (Fin t) (max_bound d0)"
  shows "seeking v (goto (Fin t) None d0)"
    and "\<not> jsne (target (goto (Fin t) None d0)) (Fin t)"
    and "current (goto (Fin t) None d0) = current d0"
proof -
  let ?b = "bound (Fin t) (min_bound d0) (max_bound d0)"
  have tg: "target (goto (Fin t) None d0) = ?b" by (simp add: goto_def)
  have b: "jle (Fin t) ?b \<and> jle ?b (Fin t)"
    by (rule bound_toward(1) [OF assms(12,13)]) simp_all
  then have f: "is_fin ?b" by (intro jle_between_fin [of "Fin t" ?b "Fin t"]) simp_all
  have d: "is_double ?b" by (intro is_double_bound) (simp_all add: assms)
  have lh: "jle (min_bound d0) (max_bound d0)" by (rule jle_trans [OF assms(12,13)])
  from bound_range [OF lh, of "Fin t"]
  have r: "in_bounds (min_bound d0) (max_bound d0) ?b" by (simp add: in_bounds_def)
  show "seeking v (goto (Fin t) None d0)"
    using assms f d r by (simp add: seeking_def goto_def default_arg_def)
  from bound_inside [OF assms(12,13)] show "\<not> jsne (target (goto (Fin t) None d0)) (Fin t)"
    unfolding tg by (simp add: jsne_sym)
  show "current (goto (Fin t) None d0) = current d0" by (simp add: goto_def)
qed

lemma toward:
  assumes sk: "seeking v d" and e: "0 < e"
  shows "jle (current d) (target d) \<Longrightarrow>
      jle (current d) (current (fst (update (Fin e) d)))
      \<and> jle (current (fst (update (Fin e) d))) (target d)"
    and "jle (target d) (current d) \<Longrightarrow>
      jle (target d) (current (fst (update (Fin e) d)))
      \<and> jle (current (fst (update (Fin e) d))) (current d)"
proof -
  from sk have f: "is_fin (current d)" "is_fin (target d)" by (simp_all add: seeking_def)
  note cu = current_step [OF sk e]
  show "jle (current d) (target d) \<Longrightarrow>
      jle (current d) (current (fst (update (Fin e) d)))
      \<and> jle (current (fst (update (Fin e) d))) (target d)"
    using cu(3) cu(1) f by (auto simp: jle_fin)
  show "jle (target d) (current d) \<Longrightarrow>
      jle (target d) (current (fst (update (Fin e) d)))
      \<and> jle (current (fst (update (Fin e) d))) (current d)"
    using cu(3) cu(1) f by (auto simp: jle_fin)
qed

lemma below_updates:
  assumes "seeking v d" "0 < e" "jle (current d) (target d)"
  shows "jle (current (updates k (Fin e) d)) (target d)"
  using assms
proof (induction k arbitrary: d)
  case 0
  then show ?case by simp
next
  case (Suc k)
  from toward(1) [OF Suc.prems] have "jle (current (fst (update (Fin e) d))) (target d)" by simp
  then have "jle (current (fst (update (Fin e) d))) (target (fst (update (Fin e) d)))"
    by (simp add: update_fields)
  from Suc.IH [OF seeking_update [OF Suc.prems(1,2)] Suc.prems(2) this]
  show ?case by (simp add: update_fields)
qed

lemma above_updates:
  assumes "seeking v d" "0 < e" "jle (target d) (current d)"
  shows "jle (target d) (current (updates k (Fin e) d))"
  using assms
proof (induction k arbitrary: d)
  case 0
  then show ?case by simp
next
  case (Suc k)
  from toward(2) [OF Suc.prems] have "jle (target d) (current (fst (update (Fin e) d)))" by simp
  then have "jle (target (fst (update (Fin e) d))) (current (fst (update (Fin e) d)))"
    by (simp add: update_fields)
  from Suc.IH [OF seeking_update [OF Suc.prems(1,2)] Suc.prems(2) this]
  show ?case by (simp add: update_fields)
qed

lemma jle_target:
  assumes "\<not> jsne tg (Fin t)"
  shows "jle x tg \<longleftrightarrow> jle x (Fin t)" "jle tg x \<longleftrightarrow> jle (Fin t) x"
  using jsne_same [OF assms] by (auto simp: jle_iff)




end
